theory Spec2Isabelle
  imports Complex_Main "HOL-Library.Sublist"
begin

section \<open>Data model\<close>

text \<open>
  The status strings \<^verbatim>\<open>'PENDING'\<close>, \<^verbatim>\<open>'COMPLETED'\<close>, \<^verbatim>\<open>'FAILED'\<close> and \<^verbatim>\<open>'SKIPPED'\<close>
  that \<^verbatim>\<open>main.py\<close> stores under the key \<^verbatim>\<open>status\<close> of a playlist and of a track.
  The code uses the same strings for both, so one type serves both.
\<close>

datatype status = PENDING | COMPLETED | FAILED | SKIPPED

text \<open>A track entry \<^verbatim>\<open>{"index": idx, "status": ...}\<close> (main.py, line 94).\<close>

record track =
  index :: int
  t_status :: status

text \<open>
  A playlist entry of the state file: the keys \<^verbatim>\<open>playlist_title\<close>,
  \<^verbatim>\<open>playlist_description\<close>, \<^verbatim>\<open>status\<close>, \<^verbatim>\<open>tracks\<close> and \<^verbatim>\<open>youtube_playlist_id\<close>
  (main.py, lines 91-96). The id is \<^verbatim>\<open>None\<close> until the playlist is created.
\<close>

record playlist =
  playlist_title :: string
  playlist_description :: string
  p_status :: status
  tracks :: "track list"
  youtube_playlist_id :: "string option"

text \<open>An entry of the video info cache (youtube_api.py, lines 73-77).\<close>

record video =
  video_id :: string
  title :: string
  description :: string

section \<open>JSON documents and the two persisted files\<close>

text \<open>
  What \<^verbatim>\<open>json.load\<close> can return. Only the truth value of a document matters to the
  code (\<^verbatim>\<open>if not playlist_data or not complete_videos_info\<close>); a float is zero or not,
  which a real number records (NaN and the infinities are truthy, like any non-zero real).
\<close>

datatype json =
    JNull
  | JBool bool
  | JInt int
  | JFloat real
  | JStr string
  | JArr "json list"
  | JObj "(string \<times> json) list"

text \<open>Python's truth value of a parsed JSON value.\<close>

fun truthy_json :: "json \<Rightarrow> bool" where
  "truthy_json JNull = False"
| "truthy_json (JBool b) = b"
| "truthy_json (JInt i) = (i \<noteq> 0)"
| "truthy_json (JFloat x) = (x \<noteq> 0)"
| "truthy_json (JStr s) = (s \<noteq> [])"
| "truthy_json (JArr xs) = (xs \<noteq> [])"
| "truthy_json (JObj kvs) = (kvs \<noteq> [])"

text \<open>
  The content of a file, as \<^verbatim>\<open>json.load\<close> parses it: a document of the shape
  \<^verbatim>\<open>{"playlists": [...]}\<close> that the analysis phase writes to the state file, a document
  of the shape \<^verbatim>\<open>[{"video_id": ..}, ...]\<close> that it writes to the cache, or any other
  JSON value.
\<close>

datatype document =
    Run_state "playlist list"
  | Video_info "video list"
  | Other json

text \<open>
  A dict with the key \<^verbatim>\<open>playlists\<close> is a non-empty dict, hence truthy; a list is truthy
  when it is not empty.
\<close>

fun truthy :: "document option \<Rightarrow> bool" where
  "truthy None = False"
| "truthy (Some (Run_state ps)) = True"
| "truthy (Some (Video_info vs)) = (vs \<noteq> [])"
| "truthy (Some (Other j)) = truthy_json j"

text \<open>
  What \<^verbatim>\<open>open\<close> and \<^verbatim>\<open>json.load\<close> raise on a file that exists and cannot be read
  as JSON: an empty or truncated file, bytes that are not text, a file the process may not
  open.
\<close>

datatype exception = JSONDecodeError | UnicodeDecodeError | PermissionError

text \<open>A file that exists either parses to a document or makes the read raise.\<close>

datatype content = Parsed document | Unreadable exception

text \<open>The files by path; \<open>None\<close> is a file that does not exist.\<close>

type_synonym files = "string \<Rightarrow> content option"

definition STATE_FILE :: string where
  "STATE_FILE = ''playlists_to_process.json''"

definition VIDEO_INFO_CACHE_FILE :: string where
  "VIDEO_INFO_CACHE_FILE = ''video_info_cache.json''"

definition BATCH_SIZE :: nat where
  "BATCH_SIZE = 50"

text \<open>\<^verbatim>\<open>save_state\<close> run to completion: the file holds the serialised data.\<close>

definition save_state :: "document \<Rightarrow> string \<Rightarrow> files \<Rightarrow> files" where
  "save_state data file_path fs = fs(file_path := Some (Parsed data))"

text \<open>
  \<^verbatim>\<open>load_state\<close> (main.py, lines 45-51): the parsed content, or Python's \<^verbatim>\<open>None\<close>
  when the file does not exist. Only \<^verbatim>\<open>FileNotFoundError\<close> is caught: any other
  exception of the read leaves the function (\<open>Inl\<close>).
\<close>

definition load_state :: "files \<Rightarrow> string \<Rightarrow> exception + document option" where
  "load_state fs file_path =
     (case fs file_path of
        None \<Rightarrow> Inr None
      | Some (Parsed data) \<Rightarrow> Inr (Some data)
      | Some (Unreadable e) \<Rightarrow> Inl e)"

section \<open>The remote service\<close>

text \<open>
  A \<^verbatim>\<open>googleapiclient.errors.HttpError\<close>: the status of its response and the text of
  \<^verbatim>\<open>str(e)\<close> (read as ASCII).
\<close>

record http_error =
  resp_status :: int
  str :: string

text \<open>\<^verbatim>\<open>str.lower\<close> on ASCII text: the capital letters map to the small ones.\<close>

definition lower_char :: "char \<Rightarrow> char" where
  "lower_char c =
     (case map_of (zip ''ABCDEFGHIJKLMNOPQRSTUVWXYZ'' ''abcdefghijklmnopqrstuvwxyz'') c of
        Some l \<Rightarrow> l
      | None \<Rightarrow> c)"

definition lower :: "string \<Rightarrow> string" where
  "lower s = map lower_char s"

text \<open>Python's \<^verbatim>\<open>needle in hay\<close> on strings.\<close>

fun contains :: "string \<Rightarrow> string \<Rightarrow> bool" where
  "contains [] needle = (needle = [])"
| "contains (c # cs) needle = (prefix needle (c # cs) \<or> contains cs needle)"

text \<open>\<^verbatim>\<open>e.resp.status == 403 and 'quota' in str(e).lower()\<close> (main.py, lines 130, 156).\<close>

definition is_quota :: "http_error \<Rightarrow> bool" where
  "is_quota e = (resp_status e = 403 \<and> contains (lower (str e)) ''quota'')"

text \<open>
  The YouTube client. Each request takes the state of the remote service and returns the
  answer together with the new state; the answer is the raised \<^verbatim>\<open>HttpError\<close> or the
  response. \<^verbatim>\<open>playlists_insert\<close> answers with \<^verbatim>\<open>response.get('id')\<close>, which is
  \<^verbatim>\<open>None\<close> when the response has no id.
\<close>

record 'r youtube_client =
  playlists_insert :: "'r \<Rightarrow> string \<Rightarrow> string \<Rightarrow> (http_error + string option) \<times> 'r"
  playlistItems_insert :: "'r \<Rightarrow> string option \<Rightarrow> string \<Rightarrow> (http_error + unit) \<times> 'r"

definition create_playlist_on_youtube ::
  "'r youtube_client \<Rightarrow> 'r \<Rightarrow> string \<Rightarrow> string \<Rightarrow> (http_error + string option) \<times> 'r" where
  "create_playlist_on_youtube youtube_client r ttl descr = playlists_insert youtube_client r ttl descr"

definition add_video_to_playlist ::
  "'r youtube_client \<Rightarrow> 'r \<Rightarrow> string option \<Rightarrow> string \<Rightarrow> (http_error + unit) \<times> 'r" where
  "add_video_to_playlist youtube_client r playlist_id vid = playlistItems_insert youtube_client r playlist_id vid"

section \<open>What a run does: requests and printed lines\<close>

datatype message =
    PHASE2_BANNER
  | FATAL_CANNOT_RESUME
  | CREATING string
  | QUOTA_CREATING
  | ERROR_CREATING string http_error
  | PROCESSING nat string
  | ADDED string
  | QUOTA_ADDING
  | ERROR_ADDING string http_error
  | FULLY_COMPLETE string
  | EXECUTION_COMPLETE
  | QUOTA_SAVED

text \<open>
  A request is recorded with its answer. \<open>Uncaught\<close> is an exception that nothing
  catches: Python prints its traceback and the process ends with exit status 1.
\<close>

datatype event =
    Print message
  | Create_call string string "http_error + string option"
  | Insert_call "string option" string "http_error + unit"
  | Uncaught exception

text \<open>
  The state of a loop when it ends: whether a quota error ended it, the data it works on,
  the state of the remote service, and what happened, in order.
\<close>

datatype ('s, 'r) progress =
  Progress (interrupted: bool) (current: 's) (remote_of: 'r) (events: "event list")

definition before :: "event list \<Rightarrow> ('s, 'r) progress \<Rightarrow> ('s, 'r) progress" where
  "before evs p = Progress (interrupted p) (current p) (remote_of p) (evs @ events p)"

section \<open>The execution phase\<close>

text \<open>
  \<^verbatim>\<open>index_to_video_id.get(track['index'])\<close>: the dict has the keys \<^verbatim>\<open>0 .. len - 1\<close>,
  so any other index, a negative one included, gives \<^verbatim>\<open>None\<close>.
\<close>

definition index_to_video_id :: "video list \<Rightarrow> int \<Rightarrow> string option" where
  "index_to_video_id complete_videos_info i =
     (if 0 \<le> i \<and> nat i < length complete_videos_info
      then Some (video_id (complete_videos_info ! nat i)) else None)"

text \<open>
  \<^verbatim>\<open>pending_tracks = [t for t in playlist['tracks'] if t['status'] == 'PENDING']\<close>.
  The elements of \<^verbatim>\<open>pending_tracks\<close> are the very objects of \<^verbatim>\<open>playlist['tracks']\<close>,
  so the list is modelled by the positions of these objects, and an assignment to
  \<^verbatim>\<open>track['status']\<close> updates the track list at that position.
\<close>

definition pending_tracks :: "track list \<Rightarrow> nat list" where
  "pending_tracks ts = filter (\<lambda>i. t_status (ts ! i) = PENDING) [0..<length ts]"

text \<open>The loop \<^verbatim>\<open>for track in pending_tracks\<close> (main.py, lines 143-161).\<close>

fun add_tracks ::
  "'r youtube_client \<Rightarrow> video list \<Rightarrow> string option \<Rightarrow> nat list \<Rightarrow> track list \<Rightarrow> 'r
     \<Rightarrow> (track list, 'r) progress" where
  "add_tracks yt info pid [] ts r = Progress False ts r []"
| "add_tracks yt info pid (i # is) ts r =
     (case index_to_video_id info (index (ts ! i)) of
        None \<Rightarrow> add_tracks yt info pid is (ts[i := (ts ! i)\<lparr>t_status := SKIPPED\<rparr>]) r
      | Some track_id \<Rightarrow>
          if track_id = [] then add_tracks yt info pid is (ts[i := (ts ! i)\<lparr>t_status := SKIPPED\<rparr>]) r
          else
            (case add_video_to_playlist yt r pid track_id of
               (Inr u, r') \<Rightarrow>
                 before [Insert_call pid track_id (Inr u), Print (ADDED track_id)]
                   (add_tracks yt info pid is (ts[i := (ts ! i)\<lparr>t_status := COMPLETED\<rparr>]) r')
             | (Inl e, r') \<Rightarrow>
                 if is_quota e
                 then Progress True ts r' [Insert_call pid track_id (Inl e), Print QUOTA_ADDING]
                 else before [Insert_call pid track_id (Inl e), Print (ERROR_ADDING track_id e)]
                        (add_tracks yt info pid is (ts[i := (ts ! i)\<lparr>t_status := FAILED\<rparr>]) r')))"

text \<open>\<^verbatim>\<open>not playlist.get('youtube_playlist_id')\<close>: \<^verbatim>\<open>None\<close> or the empty string.\<close>

definition no_id :: "string option \<Rightarrow> bool" where
  "no_id pid = (pid = None \<or> pid = Some [])"

text \<open>
  Step 2 of the loop body (main.py, lines 138-161) for a playlist: the track loop over
  its pending tracks. The result holds the playlist's track list.
\<close>

definition add_pending ::
  "'r youtube_client \<Rightarrow> video list \<Rightarrow> playlist \<Rightarrow> 'r \<Rightarrow> (track list, 'r) progress" where
  "add_pending yt info pl r =
     add_tracks yt info (youtube_playlist_id pl) (pending_tracks (tracks pl)) (tracks pl) r"

text \<open>
  Step 2 and the check after it (main.py, lines 138-166), for the playlist at position
  \<open>k\<close> of the run state.
\<close>

definition add_and_check ::
  "'r youtube_client \<Rightarrow> video list \<Rightarrow> nat \<Rightarrow> playlist list \<Rightarrow> 'r \<Rightarrow> (playlist list, 'r) progress" where
  "add_and_check yt info k ps r =
     (let pl = ps ! k;
          res = add_pending yt info pl r;
          pl' = pl\<lparr>tracks := current res\<rparr>;
          evs = Print (PROCESSING (length (pending_tracks (tracks pl))) (playlist_title pl)) # events res
      in if interrupted res then Progress True (ps[k := pl']) (remote_of res) evs
         else if list_all (\<lambda>t. t_status t \<noteq> PENDING) (tracks pl')
         then Progress False (ps[k := pl'\<lparr>p_status := COMPLETED\<rparr>]) (remote_of res)
                (evs @ [Print (FULLY_COMPLETE (playlist_title pl))])
         else Progress False (ps[k := pl']) (remote_of res) evs)"

text \<open>
  The loop \<^verbatim>\<open>for playlist in playlist_data.get('playlists', [])\<close> (main.py, lines
  119-166), over the positions of the playlists.
\<close>

fun process_playlists ::
  "'r youtube_client \<Rightarrow> video list \<Rightarrow> nat list \<Rightarrow> playlist list \<Rightarrow> 'r \<Rightarrow> (playlist list, 'r) progress" where
  "process_playlists yt info [] ps r = Progress False ps r []"
| "process_playlists yt info (k # ks) ps r =
     (let pl = ps ! k in
      if p_status pl = COMPLETED then process_playlists yt info ks ps r
      else if no_id (youtube_playlist_id pl) then
        (case create_playlist_on_youtube yt r (playlist_title pl) (playlist_description pl) of
           (Inr playlist_id, r') \<Rightarrow>
             before [Print (CREATING (playlist_title pl)),
                     Create_call (playlist_title pl) (playlist_description pl) (Inr playlist_id)]
               (let res = add_and_check yt info k (ps[k := pl\<lparr>youtube_playlist_id := playlist_id\<rparr>]) r'
                in if interrupted res then res
                   else before (events res)
                          (process_playlists yt info ks (current res) (remote_of res)))
         | (Inl e, r') \<Rightarrow>
             if is_quota e
             then Progress True ps r'
                    [Print (CREATING (playlist_title pl)),
                     Create_call (playlist_title pl) (playlist_description pl) (Inl e),
                     Print QUOTA_CREATING]
             else before [Print (CREATING (playlist_title pl)),
                          Create_call (playlist_title pl) (playlist_description pl) (Inl e),
                          Print (ERROR_CREATING (playlist_title pl) e)]
                    (process_playlists yt info ks ps r'))
      else
        (let res = add_and_check yt info k ps r
         in if interrupted res then res
            else before (events res)
                   (process_playlists yt info ks (current res) (remote_of res))))"

text \<open>
  How the process stands when \<^verbatim>\<open>run_execution_phase\<close> is over: the exit status when
  \<^verbatim>\<open>sys.exit\<close> ended it (\<open>None\<close> when the function returned), the files, the remote
  service and the events.
\<close>

record 'r outcome =
  exit_status :: "int option"
  files_of :: files
  remote :: 'r
  trace :: "event list"

text \<open>\<^verbatim>\<open>save_and_exit\<close> (main.py, lines 53-60).\<close>

definition save_and_exit :: "playlist list \<Rightarrow> files \<Rightarrow> 'r \<Rightarrow> event list \<Rightarrow> 'r outcome" where
  "save_and_exit playlist_data fs r evs =
     \<lparr>exit_status = Some 0,
      files_of = save_state (Run_state playlist_data) STATE_FILE fs,
      remote = r,
      trace = evs @ [Print QUOTA_SAVED]\<rparr>"

text \<open>An exception leaves \<^verbatim>\<open>run_execution_phase\<close> and \<^verbatim>\<open>main\<close>.\<close>

definition uncaught :: "exception \<Rightarrow> files \<Rightarrow> 'r \<Rightarrow> event list \<Rightarrow> 'r outcome" where
  "uncaught e fs r evs =
     \<lparr>exit_status = Some 1, files_of = fs, remote = r, trace = evs @ [Uncaught e]\<rparr>"

text \<open>
  \<^verbatim>\<open>run_execution_phase\<close> (main.py, lines 103-169). The state file is loaded first,
  then the cache; an exception of either load ends the run before the check of line 112.
  The result is \<open>None\<close> for truthy files that do not have the shape the analysis phase
  writes: what the code does with them is not modelled.
\<close>

definition run_execution_phase :: "'r youtube_client \<Rightarrow> files \<Rightarrow> 'r \<Rightarrow> 'r outcome option" where
  "run_execution_phase yt fs r =
     (case load_state fs STATE_FILE of
        Inl e \<Rightarrow> Some (uncaught e fs r [Print PHASE2_BANNER])
      | Inr playlist_data \<Rightarrow>
     (case load_state fs VIDEO_INFO_CACHE_FILE of
        Inl e \<Rightarrow> Some (uncaught e fs r [Print PHASE2_BANNER])
      | Inr complete_videos_info \<Rightarrow>
         if \<not> truthy playlist_data \<or> \<not> truthy complete_videos_info
         then Some \<lparr>exit_status = Some 1, files_of = fs, remote = r,
                    trace = [Print PHASE2_BANNER, Print FATAL_CANNOT_RESUME]\<rparr>
         else
           (case (playlist_data, complete_videos_info) of
              (Some (Run_state ps), Some (Video_info info)) \<Rightarrow>
                (let res = process_playlists yt info [0..<length ps] ps r
                 in if interrupted res
                    then Some (save_and_exit (current res) fs (remote_of res)
                                 (Print PHASE2_BANNER # events res))
                    else Some \<lparr>exit_status = None,
                               files_of = save_state (Run_state (current res)) STATE_FILE fs,
                               remote = remote_of res,
                               trace = Print PHASE2_BANNER # events res @ [Print EXECUTION_COMPLETE]\<rparr>)
            | _ \<Rightarrow> None)))"

section \<open>Reading a trace and a state\<close>

text \<open>An insertion request that succeeded.\<close>

fun inserted :: "event \<Rightarrow> bool" where
  "inserted (Insert_call pid vid (Inr u)) = True"
| "inserted ev = False"

text \<open>An insertion request that failed for a reason other than the quota.\<close>

fun rejected :: "event \<Rightarrow> bool" where
  "rejected (Insert_call pid vid (Inl e)) = (\<not> is_quota e)"
| "rejected ev = False"

text \<open>A request that failed with the quota error.\<close>

fun quota_hit :: "event \<Rightarrow> bool" where
  "quota_hit (Create_call ttl descr (Inl e)) = is_quota e"
| "quota_hit (Insert_call pid vid (Inl e)) = is_quota e"
| "quota_hit ev = False"

fun is_request :: "event \<Rightarrow> bool" where
  "is_request (Create_call ttl descr a) = True"
| "is_request (Insert_call pid vid a) = True"
| "is_request ev = False"

fun is_create :: "event \<Rightarrow> bool" where
  "is_create (Create_call ttl descr a) = True"
| "is_create ev = False"

text \<open>The number of tracks with a given status, in a track list and in a run state.\<close>

definition count_tracks :: "status \<Rightarrow> track list \<Rightarrow> nat" where
  "count_tracks s ts = length (filter (\<lambda>t. t_status t = s) ts)"

definition count_status :: "status \<Rightarrow> playlist list \<Rightarrow> nat" where
  "count_status s ps = sum_list (map (\<lambda>pl. count_tracks s (tracks pl)) ps)"

text \<open>A playlist none of whose tracks is pending.\<close>

definition settled :: "playlist \<Rightarrow> bool" where
  "settled pl = list_all (\<lambda>t. t_status t \<noteq> PENDING) (tracks pl)"

section \<open>A concrete service\<close>

text \<open>
  A service that allows a number of write requests and answers every further one with
  the quota error; it rejects a playlist without a title and the video \<^verbatim>\<open>gone\<close>.
\<close>

definition quota_error :: http_error where
  "quota_error = \<lparr>resp_status = 403, str = ''quotaExceeded''\<rparr>"

definition not_found :: http_error where
  "not_found = \<lparr>resp_status = 404, str = ''videoNotFound''\<rparr>"

definition budget_client :: "nat youtube_client" where
  "budget_client =
     \<lparr>playlists_insert = (\<lambda>n ttl descr.
        if n = 0 then (Inl quota_error, 0)
        else if ttl = [] then (Inl not_found, n - 1)
        else (Inr (Some (''PL_'' @ ttl)), n - 1)),
      playlistItems_insert = (\<lambda>n pid vid.
        if n = 0 then (Inl quota_error, 0)
        else if vid = ''gone'' then (Inl not_found, n - 1)
        else (Inr (), n - 1))\<rparr>"

definition no_files :: files where
  "no_files = (\<lambda>p. None)"

text \<open>
  A cache of three videos and a plan of two playlists; the third track of the first
  playlist has an index outside the cache.
\<close>

definition demo_info :: "video list" where
  "demo_info =
     [\<lparr>video_id = ''v0'', title = ''A'', description = ''a''\<rparr>,
      \<lparr>video_id = ''gone'', title = ''B'', description = ''b''\<rparr>,
      \<lparr>video_id = ''v2'', title = ''C'', description = ''c''\<rparr>]"

definition demo_state :: "playlist list" where
  "demo_state =
     [\<lparr>playlist_title = ''Rock'', playlist_description = ''loud'', p_status = PENDING,
       tracks = [\<lparr>index = 0, t_status = PENDING\<rparr>, \<lparr>index = 1, t_status = PENDING\<rparr>,
                 \<lparr>index = 7, t_status = PENDING\<rparr>],
       youtube_playlist_id = None\<rparr>,
      \<lparr>playlist_title = ''Jazz'', playlist_description = ''calm'', p_status = PENDING,
       tracks = [\<lparr>index = 2, t_status = PENDING\<rparr>, \<lparr>index = 0, t_status = PENDING\<rparr>],
       youtube_playlist_id = None\<rparr>]"

definition demo_files :: files where
  "demo_files =
     no_files(STATE_FILE := Some (Parsed (Run_state demo_state)),
              VIDEO_INFO_CACHE_FILE := Some (Parsed (Video_info demo_info)))"

text \<open>
  What the run on these files leaves when the service allows four requests: the first
  playlist is done, the second is created and the quota error meets its first track.
\<close>

definition demo_saved :: "playlist list" where
  "demo_saved =
     [\<lparr>playlist_title = ''Rock'', playlist_description = ''loud'', p_status = COMPLETED,
       tracks = [\<lparr>index = 0, t_status = COMPLETED\<rparr>, \<lparr>index = 1, t_status = FAILED\<rparr>,
                 \<lparr>index = 7, t_status = SKIPPED\<rparr>],
       youtube_playlist_id = Some ''PL_Rock''\<rparr>,
      \<lparr>playlist_title = ''Jazz'', playlist_description = ''calm'', p_status = PENDING,
       tracks = [\<lparr>index = 2, t_status = PENDING\<rparr>, \<lparr>index = 0, t_status = PENDING\<rparr>],
       youtube_playlist_id = Some ''PL_Jazz''\<rparr>]"

definition demo_events :: "event list" where
  "demo_events =
     [Print (CREATING ''Rock''),
      Create_call ''Rock'' ''loud'' (Inr (Some ''PL_Rock'')),
      Print (PROCESSING 3 ''Rock''),
      Insert_call (Some ''PL_Rock'') ''v0'' (Inr ()), Print (ADDED ''v0''),
      Insert_call (Some ''PL_Rock'') ''gone'' (Inl not_found),
      Print (ERROR_ADDING ''gone'' not_found),
      Print (FULLY_COMPLETE ''Rock''), Print (CREATING ''Jazz''),
      Create_call ''Jazz'' ''calm'' (Inr (Some ''PL_Jazz'')),
      Print (PROCESSING 2 ''Jazz''),
      Insert_call (Some ''PL_Jazz'') ''v2'' (Inl quota_error),
      Print QUOTA_ADDING]"

definition demo_outcome :: "nat outcome" where
  "demo_outcome = save_and_exit demo_saved demo_files 0 (Print PHASE2_BANNER # demo_events)"

text \<open>
  A plan whose only playlist has no track and is not created yet, as the analysis phase
  writes it for an empty list of indices, and what the run on it leaves.
\<close>

definition empty_plan :: "playlist list" where
  "empty_plan =
     [\<lparr>playlist_title = ''Empty'', playlist_description = ''none'', p_status = PENDING,
       tracks = [], youtube_playlist_id = None\<rparr>]"

definition empty_files :: files where
  "empty_files =
     no_files(STATE_FILE := Some (Parsed (Run_state empty_plan)),
              VIDEO_INFO_CACHE_FILE := Some (Parsed (Video_info demo_info)))"

definition empty_done :: "playlist list" where
  "empty_done =
     [\<lparr>playlist_title = ''Empty'', playlist_description = ''none'', p_status = COMPLETED,
       tracks = [], youtube_playlist_id = Some ''PL_Empty''\<rparr>]"

definition empty_outcome :: "nat outcome" where
  "empty_outcome =
     \<lparr>exit_status = None,
      files_of = empty_files(STATE_FILE := Some (Parsed (Run_state empty_done))),
      remote = 3,
      trace = [Print PHASE2_BANNER, Print (CREATING ''Empty''),
               Create_call ''Empty'' ''none'' (Inr (Some ''PL_Empty'')),
               Print (PROCESSING 0 ''Empty''), Print (FULLY_COMPLETE ''Empty''),
               Print EXECUTION_COMPLETE]\<rparr>"

text \<open>The files after the demo run has gone on to its end: every playlist is completed.\<close>

definition done_state :: "playlist list" where
  "done_state =
     [\<lparr>playlist_title = ''Rock'', playlist_description = ''loud'', p_status = COMPLETED,
       tracks = [\<lparr>index = 0, t_status = COMPLETED\<rparr>, \<lparr>index = 1, t_status = FAILED\<rparr>,
                 \<lparr>index = 7, t_status = SKIPPED\<rparr>],
       youtube_playlist_id = Some ''PL_Rock''\<rparr>,
      \<lparr>playlist_title = ''Jazz'', playlist_description = ''calm'', p_status = COMPLETED,
       tracks = [\<lparr>index = 2, t_status = COMPLETED\<rparr>, \<lparr>index = 0, t_status = COMPLETED\<rparr>],
       youtube_playlist_id = Some ''PL_Jazz''\<rparr>]"

definition done_files :: files where
  "done_files =
     no_files(STATE_FILE := Some (Parsed (Run_state done_state)),
              VIDEO_INFO_CACHE_FILE := Some (Parsed (Video_info demo_info)))"

section \<open>Successive runs\<close>





text \<open>A plan whose playlist has no title: the concrete service rejects its creation.\<close>

definition untitled_plan :: "playlist list" where
  "untitled_plan =
     [\<lparr>playlist_title = [], playlist_description = ''none'', p_status = PENDING,
       tracks = [\<lparr>index = 0, t_status = PENDING\<rparr>], youtube_playlist_id = None\<rparr>]"

text \<open>The tracks of the first demo playlist.\<close>

definition rock_tracks :: "track list" where
  "rock_tracks =
     [\<lparr>index = 0, t_status = PENDING\<rparr>, \<lparr>index = 1, t_status = PENDING\<rparr>,
      \<lparr>index = 7, t_status = PENDING\<rparr>]"

section \<open>Lemmas on the track loop\<close>

lemma interrupted_before [simp]: "interrupted (before evs p) = interrupted p"
  and current_before [simp]: "current (before evs p) = current p"
  and remote_of_before [simp]: "remote_of (before evs p) = remote_of p"
  and events_before [simp]: "events (before evs p) = evs @ events p"
  by (simp_all add: before_def)

lemma add_tracks_length [simp]:
  "length (current (add_tracks yt info pid is ts r)) = length ts"
  by (induction "is" arbitrary: ts r)
     (auto split: option.splits prod.splits sum.splits)


lemma add_tracks_keeps_settled:
  "j < length ts \<Longrightarrow> t_status (ts ! j) \<noteq> PENDING
     \<Longrightarrow> t_status (current (add_tracks yt info pid is ts r) ! j) \<noteq> PENDING"
proof (induction "is" arbitrary: ts r)
  case Nil
  then show ?case by simp
next
  case (Cons i "is")
  have step: "t_status (current (add_tracks yt info pid is (ts[i := (ts ! i)\<lparr>t_status := s\<rparr>]) r') ! j) \<noteq> PENDING"
    if "s \<noteq> PENDING" for s r'
    using Cons.prems that by (intro Cons.IH) (cases "j = i"; simp)+
  show ?case
    using Cons.prems
    by (auto split: option.splits prod.splits sum.splits simp: step)
qed

lemma add_tracks_settles:
  "\<not> interrupted (add_tracks yt info pid is ts r) \<Longrightarrow> j \<in> set is \<Longrightarrow> j < length ts
     \<Longrightarrow> t_status (current (add_tracks yt info pid is ts r) ! j) \<noteq> PENDING"
proof (induction "is" arbitrary: ts r)
  case Nil
  then show ?case by simp
next
  case (Cons i "is")
  have step: "t_status (current (add_tracks yt info pid is (ts[i := (ts ! i)\<lparr>t_status := s\<rparr>]) r') ! j) \<noteq> PENDING"
    if "s \<noteq> PENDING" and "\<not> interrupted (add_tracks yt info pid is (ts[i := (ts ! i)\<lparr>t_status := s\<rparr>]) r')" for s r'
  proof (cases "j = i")
    case True
    then show ?thesis
      using Cons.prems that by (intro add_tracks_keeps_settled) auto
  next
    case False
    then show ?thesis
      using Cons.prems that by (intro Cons.IH) auto
  qed
  show ?case
    using Cons.prems(1)
    by (auto split: option.splits prod.splits sum.splits if_splits simp: step)
qed

lemma length_filter_update:
  "i < length xs \<Longrightarrow> \<not> P (xs ! i)
     \<Longrightarrow> length (filter P (xs[i := x])) = length (filter P xs) + (if P x then 1 else 0)"
proof (induction xs arbitrary: i)
  case Nil
  then show ?case by simp
next
  case (Cons a xs)
  then show ?case by (cases i) auto
qed

lemma count_tracks_update:
  "i < length ts \<Longrightarrow> t_status (ts ! i) = PENDING \<Longrightarrow> s \<noteq> PENDING
     \<Longrightarrow> count_tracks s (ts[i := (ts ! i)\<lparr>t_status := s'\<rparr>])
         = count_tracks s ts + (if s' = s then 1 else 0)"
  unfolding count_tracks_def
  by (subst length_filter_update) auto

lemma add_tracks_count_completed:
  "distinct is \<Longrightarrow> \<forall>i\<in>set is. i < length ts \<and> t_status (ts ! i) = PENDING
     \<Longrightarrow> count_tracks COMPLETED (current (add_tracks yt info pid is ts r))
         = count_tracks COMPLETED ts + length (filter inserted (events (add_tracks yt info pid is ts r)))"
proof (induction "is" arbitrary: ts r)
  case Nil
  then show ?case by simp
next
  case (Cons i "is")
  have rest: "\<forall>j\<in>set is. j < length (ts[i := x]) \<and> t_status (ts[i := x] ! j) = PENDING" for x
    using Cons.prems by (auto simp: nth_list_update)
  have d: "distinct is" using Cons.prems by simp
  have i: "i < length ts" "t_status (ts ! i) = PENDING" using Cons.prems by auto
  show ?case
    by (auto split: option.splits prod.splits sum.splits
             simp: Cons.IH [OF d rest] count_tracks_update [OF i])
qed

lemma add_tracks_count_failed:
  "distinct is \<Longrightarrow> \<forall>i\<in>set is. i < length ts \<and> t_status (ts ! i) = PENDING
     \<Longrightarrow> count_tracks FAILED (current (add_tracks yt info pid is ts r))
         = count_tracks FAILED ts + length (filter rejected (events (add_tracks yt info pid is ts r)))"
proof (induction "is" arbitrary: ts r)
  case Nil
  then show ?case by simp
next
  case (Cons i "is")
  have rest: "\<forall>j\<in>set is. j < length (ts[i := x]) \<and> t_status (ts[i := x] ! j) = PENDING" for x
    using Cons.prems by (auto simp: nth_list_update)
  have d: "distinct is" using Cons.prems by simp
  have i: "i < length ts" "t_status (ts ! i) = PENDING" using Cons.prems by auto
  show ?case
    by (auto split: option.splits prod.splits sum.splits
             simp: Cons.IH [OF d rest] count_tracks_update [OF i])
qed

lemma add_tracks_no_create:
  "ev \<in> set (events (add_tracks yt info pid is ts r)) \<Longrightarrow> \<not> is_create ev"
  by (induction "is" arbitrary: ts r)
     (auto split: option.splits prod.splits sum.splits if_splits)

lemma add_tracks_quiet:
  "\<not> interrupted (add_tracks yt info pid is ts r)
     \<Longrightarrow> ev \<in> set (events (add_tracks yt info pid is ts r)) \<Longrightarrow> \<not> quota_hit ev"
  by (induction "is" arbitrary: ts r)
     (auto split: option.splits prod.splits sum.splits if_splits)

lemma quota_last_append:
  assumes "\<exists>pre c. evs = pre @ [c, Print m] \<and> quota_hit c \<and> (\<forall>ev\<in>set pre. \<not> quota_hit ev)"
    and "\<forall>ev\<in>set evs0. \<not> quota_hit ev"
  shows "\<exists>pre c. evs0 @ evs = pre @ [c, Print m] \<and> quota_hit c \<and> (\<forall>ev\<in>set pre. \<not> quota_hit ev)"
proof -
  from assms(1) obtain pre c where
    "evs = pre @ [c, Print m]" "quota_hit c" "\<forall>ev\<in>set pre. \<not> quota_hit ev" by blast
  then have "evs0 @ evs = (evs0 @ pre) @ [c, Print m] \<and> quota_hit c
      \<and> (\<forall>ev\<in>set (evs0 @ pre). \<not> quota_hit ev)"
    using assms(2) by auto
  then show ?thesis by blast
qed

lemma add_tracks_quota_last:
  "interrupted (add_tracks yt info pid is ts r)
     \<Longrightarrow> \<exists>pre c. events (add_tracks yt info pid is ts r) = pre @ [c, Print QUOTA_ADDING]
           \<and> quota_hit c \<and> (\<forall>ev\<in>set pre. \<not> quota_hit ev)"
proof (induction "is" arbitrary: ts r)
  case Nil
  then show ?case by simp
next
  case (Cons i "is")
  show ?case
  proof (cases "index_to_video_id info (index (ts ! i))")
    case None
    then show ?thesis using Cons.prems Cons.IH by simp
  next
    case (Some vid)
    show ?thesis
    proof (cases "vid = []")
      case True
      then show ?thesis using Some Cons.prems Cons.IH by simp
    next
      case False
      obtain a r' where call: "add_video_to_playlist yt r pid vid = (a, r')"
        by (cases "add_video_to_playlist yt r pid vid")
      show ?thesis
      proof (cases a)
        case (Inr u)
        then have int: "interrupted (add_tracks yt info pid is (ts[i := (ts ! i)\<lparr>t_status := COMPLETED\<rparr>]) r')"
          using Some False call Cons.prems by simp
        from quota_last_append [OF Cons.IH [OF int],
            of "[Insert_call pid vid (Inr u), Print (ADDED vid)]"]
        show ?thesis using Some False call Inr by simp
      next
        case (Inl e)
        show ?thesis
        proof (cases "is_quota e")
          case True
          have "[Insert_call pid vid (Inl e), Print QUOTA_ADDING] = [] @ [Insert_call pid vid (Inl e), Print QUOTA_ADDING]"
            by simp
          then show ?thesis
            using Some False call Inl True by (auto intro!: exI [where x = "[]"])
        next
          case nq: False
          then have int: "interrupted (add_tracks yt info pid is (ts[i := (ts ! i)\<lparr>t_status := FAILED\<rparr>]) r')"
            using Some False call Inl Cons.prems by simp
          from quota_last_append [OF Cons.IH [OF int],
              of "[Insert_call pid vid (Inl e), Print (ERROR_ADDING vid e)]"]
          show ?thesis using Some False call Inl nq by simp
        qed
      qed
    qed
  qed
qed

lemma pending_tracks_distinct: "distinct (pending_tracks ts)"
  by (simp add: pending_tracks_def)

lemma pending_tracks_mem:
  "i \<in> set (pending_tracks ts) \<longleftrightarrow> i < length ts \<and> t_status (ts ! i) = PENDING"
  by (auto simp: pending_tracks_def)

lemma pending_tracks_all:
  "\<forall>i\<in>set (pending_tracks ts). i < length ts \<and> t_status (ts ! i) = PENDING"
  by (simp add: pending_tracks_mem)

text \<open>The track list of playlist \<open>k\<close> after its tracks have been worked on.\<close>

lemma add_and_check_interrupted:
  "interrupted (add_and_check yt info k ps r) =
     interrupted (add_pending yt info (ps ! k) r)"
  by (simp add: add_and_check_def Let_def)

lemma add_and_check_remote:
  "remote_of (add_and_check yt info k ps r) =
     remote_of (add_pending yt info (ps ! k) r)"
  by (simp add: add_and_check_def Let_def)

lemma add_and_check_length [simp]:
  "length (current (add_and_check yt info k ps r)) = length ps"
  by (simp add: add_and_check_def Let_def)



lemma add_and_check_events:
  "\<exists>tail. events (add_and_check yt info k ps r) =
     Print (PROCESSING (length (pending_tracks (tracks (ps ! k)))) (playlist_title (ps ! k)))
       # events (add_pending yt info (ps ! k) r) @ tail
     \<and> (tail = [] \<or> tail = [Print (FULLY_COMPLETE (playlist_title (ps ! k)))])
     \<and> (interrupted (add_and_check yt info k ps r) \<longrightarrow> tail = [])"
  by (simp add: add_and_check_def Let_def)

lemma add_pending_length [simp]:
  "length (current (add_pending yt info pl r)) = length (tracks pl)"
  by (simp add: add_pending_def)

lemma add_tracks_all_settled:
  assumes "\<not> interrupted (add_tracks yt info pid (pending_tracks ts) ts r)"
  shows "list_all (\<lambda>t. t_status t \<noteq> PENDING) (current (add_tracks yt info pid (pending_tracks ts) ts r))"
proof -
  let ?c = "current (add_tracks yt info pid (pending_tracks ts) ts r)"
  have "t_status (?c ! j) \<noteq> PENDING" if "j < length ts" for j
  proof (cases "t_status (ts ! j) = PENDING")
    case True
    then show ?thesis
      using assms that by (intro add_tracks_settles) (simp_all add: pending_tracks_mem)
  next
    case False
    then show ?thesis using that by (intro add_tracks_keeps_settled)
  qed
  then show ?thesis by (simp add: list_all_length)
qed


text \<open>One round of the playlist loop.\<close>

lemma process_step:
  obtains
    (skip) "p_status (ps ! k) = COMPLETED"
      "process_playlists yt info (k # ks) ps r = process_playlists yt info ks ps r"
  | (create_quota) e r' where "p_status (ps ! k) \<noteq> COMPLETED" "no_id (youtube_playlist_id (ps ! k))"
      "create_playlist_on_youtube yt r (playlist_title (ps ! k)) (playlist_description (ps ! k)) = (Inl e, r')"
      "is_quota e"
      "process_playlists yt info (k # ks) ps r =
         Progress True ps r'
           [Print (CREATING (playlist_title (ps ! k))),
            Create_call (playlist_title (ps ! k)) (playlist_description (ps ! k)) (Inl e),
            Print QUOTA_CREATING]"
  | (create_error) e r' where "p_status (ps ! k) \<noteq> COMPLETED" "no_id (youtube_playlist_id (ps ! k))"
      "create_playlist_on_youtube yt r (playlist_title (ps ! k)) (playlist_description (ps ! k)) = (Inl e, r')"
      "\<not> is_quota e"
      "process_playlists yt info (k # ks) ps r =
         before [Print (CREATING (playlist_title (ps ! k))),
                 Create_call (playlist_title (ps ! k)) (playlist_description (ps ! k)) (Inl e),
                 Print (ERROR_CREATING (playlist_title (ps ! k)) e)]
           (process_playlists yt info ks ps r')"
  | (created) playlist_id r' where "p_status (ps ! k) \<noteq> COMPLETED" "no_id (youtube_playlist_id (ps ! k))"
      "create_playlist_on_youtube yt r (playlist_title (ps ! k)) (playlist_description (ps ! k)) = (Inr playlist_id, r')"
      "process_playlists yt info (k # ks) ps r =
         before [Print (CREATING (playlist_title (ps ! k))),
                 Create_call (playlist_title (ps ! k)) (playlist_description (ps ! k)) (Inr playlist_id)]
           (let res = add_and_check yt info k (ps[k := (ps ! k)\<lparr>youtube_playlist_id := playlist_id\<rparr>]) r'
            in if interrupted res then res
               else before (events res) (process_playlists yt info ks (current res) (remote_of res)))"
  | (existing) "p_status (ps ! k) \<noteq> COMPLETED" "\<not> no_id (youtube_playlist_id (ps ! k))"
      "process_playlists yt info (k # ks) ps r =
         (let res = add_and_check yt info k ps r
          in if interrupted res then res
             else before (events res) (process_playlists yt info ks (current res) (remote_of res)))"
proof (cases "p_status (ps ! k) = COMPLETED")
  case True
  then show ?thesis using skip by (simp add: Let_def)
next
  case nc: False
  show ?thesis
  proof (cases "no_id (youtube_playlist_id (ps ! k))")
    case False
    then show ?thesis using nc existing by (simp add: Let_def)
  next
    case True
    obtain a r' where call:
      "create_playlist_on_youtube yt r (playlist_title (ps ! k)) (playlist_description (ps ! k)) = (a, r')"
      by (cases "create_playlist_on_youtube yt r (playlist_title (ps ! k)) (playlist_description (ps ! k))")
    show ?thesis
    proof (cases a)
      case (Inr playlist_id)
      then show ?thesis using nc True call created [of playlist_id r'] by (simp add: Let_def)
    next
      case (Inl e)
      then show ?thesis
        using nc True call create_quota [of e r'] create_error [of e r']
        by (cases "is_quota e") (simp_all add: Let_def)
    qed
  qed
qed

section \<open>Lemmas on the playlist loop\<close>

lemma process_playlists_length [simp]:
  "length (current (process_playlists yt info ks ps r)) = length ps"
proof (induction ks arbitrary: ps r)
  case Nil
  then show ?case by simp
next
  case (Cons k ks)
  show ?case
    by (cases rule: process_step [of ps k yt info ks r]) (simp_all add: Cons.IH Let_def)
qed

text \<open>
  A property of the playlist loop follows from its rounds: \<open>R before flag events after\<close>
  relates the run state before some rounds to the state after them, together with whether
  a quota error ended them and what happened in them.
\<close>

lemma process_playlists_rule:
  fixes R :: "playlist list \<Rightarrow> bool \<Rightarrow> event list \<Rightarrow> playlist list \<Rightarrow> bool"
  assumes ks: "\<forall>k\<in>set ks. k < length ps"
    and refl: "\<And>ps. R ps False [] ps"
    and trans: "\<And>a e1 b q e2 c. R a False e1 b \<Longrightarrow> R b q e2 c \<Longrightarrow> R a q (e1 @ e2) c"
    and created: "\<And>ps k pid. k < length ps \<Longrightarrow> p_status (ps ! k) \<noteq> COMPLETED
        \<Longrightarrow> no_id (youtube_playlist_id (ps ! k))
        \<Longrightarrow> R ps False
              [Print (CREATING (playlist_title (ps ! k))),
               Create_call (playlist_title (ps ! k)) (playlist_description (ps ! k)) (Inr pid)]
              (ps[k := (ps ! k)\<lparr>youtube_playlist_id := pid\<rparr>])"
    and quota: "\<And>ps k e. k < length ps \<Longrightarrow> p_status (ps ! k) \<noteq> COMPLETED
        \<Longrightarrow> no_id (youtube_playlist_id (ps ! k)) \<Longrightarrow> is_quota e
        \<Longrightarrow> R ps True
              [Print (CREATING (playlist_title (ps ! k))),
               Create_call (playlist_title (ps ! k)) (playlist_description (ps ! k)) (Inl e),
               Print QUOTA_CREATING] ps"
    and failed: "\<And>ps k e. k < length ps \<Longrightarrow> p_status (ps ! k) \<noteq> COMPLETED
        \<Longrightarrow> no_id (youtube_playlist_id (ps ! k)) \<Longrightarrow> \<not> is_quota e
        \<Longrightarrow> R ps False
              [Print (CREATING (playlist_title (ps ! k))),
               Create_call (playlist_title (ps ! k)) (playlist_description (ps ! k)) (Inl e),
               Print (ERROR_CREATING (playlist_title (ps ! k)) e)] ps"
    and added: "\<And>ps k r. k < length ps \<Longrightarrow> p_status (ps ! k) \<noteq> COMPLETED
        \<Longrightarrow> R ps (interrupted (add_and_check yt info k ps r))
              (events (add_and_check yt info k ps r))
              (current (add_and_check yt info k ps r))"
  shows "R ps (interrupted (process_playlists yt info ks ps r))
           (events (process_playlists yt info ks ps r))
           (current (process_playlists yt info ks ps r))"
  using ks
proof (induction ks arbitrary: ps r)
  case Nil
  then show ?case by (simp add: refl)
next
  case (Cons k ks)
  have k: "k < length ps" and ks: "\<forall>j\<in>set ks. j < length ps"
    using Cons.prems by auto
  have rest: "R qs (interrupted (process_playlists yt info ks qs r'))
           (events (process_playlists yt info ks qs r'))
           (current (process_playlists yt info ks qs r'))" if "length qs = length ps" for qs r'
    using ks that by (intro Cons.IH) simp
  have tracks_then_rest:
    "R qs (interrupted res) (events res) (current res)"
    if "length qs = length ps" and "p_status (qs ! k) \<noteq> COMPLETED"
      and "res = (let ac = add_and_check yt info k qs r'
                  in if interrupted ac then ac
                     else before (events ac)
                            (process_playlists yt info ks (current ac) (remote_of ac)))"
    for qs r' res
  proof -
    let ?ac = "add_and_check yt info k qs r'"
    have ac: "R qs (interrupted ?ac) (events ?ac) (current ?ac)"
      using that(1,2) k by (intro added) simp_all
    show ?thesis
    proof (cases "interrupted ?ac")
      case True
      then show ?thesis using ac that(3) by (simp add: Let_def)
    next
      case False
      have "R (current ?ac)
              (interrupted (process_playlists yt info ks (current ?ac) (remote_of ?ac)))
              (events (process_playlists yt info ks (current ?ac) (remote_of ?ac)))
              (current (process_playlists yt info ks (current ?ac) (remote_of ?ac)))"
        using that(1) by (intro rest) simp
      with ac False show ?thesis
        using that(3) by (simp add: Let_def trans)
    qed
  qed
  show ?case
  proof (cases rule: process_step [of ps k yt info ks r])
    case skip
    then show ?thesis using rest [of ps r] by simp
  next
    case (create_quota e r')
    then show ?thesis using quota [OF k, of e] by simp
  next
    case (create_error e r')
    from failed [OF k create_error(1,2,4)] rest [of ps r']
    have "R ps (interrupted (process_playlists yt info ks ps r'))
            ([Print (CREATING (playlist_title (ps ! k))),
              Create_call (playlist_title (ps ! k)) (playlist_description (ps ! k)) (Inl e),
              Print (ERROR_CREATING (playlist_title (ps ! k)) e)]
             @ events (process_playlists yt info ks ps r'))
            (current (process_playlists yt info ks ps r'))"
      by (intro trans) simp_all
    then show ?thesis using create_error(5) by simp
  next
    case (created playlist_id r')
    let ?qs = "ps[k := (ps ! k)\<lparr>youtube_playlist_id := playlist_id\<rparr>]"
    let ?res = "let ac = add_and_check yt info k ?qs r'
                  in if interrupted ac then ac
                     else before (events ac)
                            (process_playlists yt info ks (current ac) (remote_of ac))"
    have "R ?qs (interrupted ?res) (events ?res) (current ?res)"
      using created(1) k by (intro tracks_then_rest [where r' = r']) simp_all
    moreover have "R ps False
            [Print (CREATING (playlist_title (ps ! k))),
             Create_call (playlist_title (ps ! k)) (playlist_description (ps ! k)) (Inr playlist_id)]
            ?qs"
      using k created(1,2) by (rule assms(4))
    ultimately have "R ps (interrupted ?res)
            ([Print (CREATING (playlist_title (ps ! k))),
              Create_call (playlist_title (ps ! k)) (playlist_description (ps ! k)) (Inr playlist_id)]
             @ events ?res) (current ?res)"
      by (intro trans)
    then show ?thesis using created(4) by simp
  next
    case existing
    then show ?thesis using tracks_then_rest [of ps _ r] by simp
  qed
qed

lemma add_and_check_current:
  "k < length ps \<Longrightarrow>
   current (add_and_check yt info k ps r) =
     ps[k := (ps ! k)\<lparr>tracks := current (add_pending yt info (ps ! k) r),
                    p_status := (if \<not> interrupted (add_pending yt info (ps ! k) r)
                                    \<and> list_all (\<lambda>t. t_status t \<noteq> PENDING) (current (add_pending yt info (ps ! k) r))
                                 then COMPLETED else p_status (ps ! k))\<rparr>]"
  by (simp add: add_and_check_def Let_def list_update_same_conv)


lemma add_pending_all_settled:
  "\<not> interrupted (add_pending yt info pl r)
     \<Longrightarrow> list_all (\<lambda>t. t_status t \<noteq> PENDING) (current (add_pending yt info pl r))"
  unfolding add_pending_def by (rule add_tracks_all_settled)

text \<open>A playlist is marked completed only when none of its tracks is pending.\<close>

lemma process_playlists_completed_settled:
  assumes "\<forall>k\<in>set ks. k < length ps"
  shows "\<forall>j<length ps.
           p_status (current (process_playlists yt info ks ps r) ! j) = COMPLETED \<longrightarrow>
             current (process_playlists yt info ks ps r) ! j = ps ! j
             \<or> settled (current (process_playlists yt info ks ps r) ! j)"
proof -
  define R :: "playlist list \<Rightarrow> bool \<Rightarrow> event list \<Rightarrow> playlist list \<Rightarrow> bool" where
    "R = (\<lambda>a q evs b. length b = length a
            \<and> (\<forall>j<length a. p_status (b ! j) = COMPLETED \<longrightarrow> b ! j = a ! j \<or> settled (b ! j)))"
  have "R ps (interrupted (process_playlists yt info ks ps r))
           (events (process_playlists yt info ks ps r))
           (current (process_playlists yt info ks ps r))"
  proof (rule process_playlists_rule [OF assms])
    show "R ps False [] ps" for ps by (simp add: R_def)
  next
    fix a e1 b q e2 c
    assume "R a False e1 b" "R b q e2 c"
    then show "R a q (e1 @ e2) c" unfolding R_def by (metis (no_types, lifting))
  next
    fix ps :: "playlist list" and k pid
    assume "k < length ps" "p_status (ps ! k) \<noteq> COMPLETED"
    then show "R ps False
              [Print (CREATING (playlist_title (ps ! k))),
               Create_call (playlist_title (ps ! k)) (playlist_description (ps ! k)) (Inr pid)]
              (ps[k := (ps ! k)\<lparr>youtube_playlist_id := pid\<rparr>])"
      by (auto simp: R_def nth_list_update)
  next
    fix ps :: "playlist list" and k r
    assume k: "k < length ps" and nc: "p_status (ps ! k) \<noteq> COMPLETED"
    show "R ps (interrupted (add_and_check yt info k ps r))
              (events (add_and_check yt info k ps r))
              (current (add_and_check yt info k ps r))"
      using k nc add_pending_all_settled [of yt info "ps ! k" r]
      by (auto simp: R_def add_and_check_current nth_list_update settled_def)
  qed (simp_all add: R_def)
  then show ?thesis by (simp add: R_def)
qed


lemma process_playlists_all_completed:
  "\<forall>k\<in>set ks. p_status (ps ! k) = COMPLETED
     \<Longrightarrow> process_playlists yt info ks ps r = Progress False ps r []"
  by (induction ks) simp_all

section \<open>Lemmas on the files\<close>

lemma files_distinct [simp]:
  "STATE_FILE \<noteq> VIDEO_INFO_CACHE_FILE" "VIDEO_INFO_CACHE_FILE \<noteq> STATE_FILE"
  by (simp_all add: STATE_FILE_def VIDEO_INFO_CACHE_FILE_def)

lemma load_state_missing [simp]: "fs p = None \<Longrightarrow> load_state fs p = Inr None"
  by (simp add: load_state_def)

lemma load_state_parsed [simp]: "fs p = Some (Parsed d) \<Longrightarrow> load_state fs p = Inr (Some d)"
  by (simp add: load_state_def)

lemma load_state_unreadable [simp]: "fs p = Some (Unreadable e) \<Longrightarrow> load_state fs p = Inl e"
  by (simp add: load_state_def)

lemma load_state_removed [simp]: "load_state (fs(p := None)) p = Inr None"
  by (simp add: load_state_def)

lemma load_state_elsewhere [simp]: "q \<noteq> p \<Longrightarrow> load_state (fs(p := c)) q = load_state fs q"
  by (simp add: load_state_def)

text \<open>The check of line 112 sends the run to the fatal exit.\<close>

lemma run_execution_phase_fatal:
  assumes "load_state fs STATE_FILE = Inr a" and "load_state fs VIDEO_INFO_CACHE_FILE = Inr b"
    and "\<not> truthy a \<or> \<not> truthy b"
  shows "run_execution_phase yt fs r =
           Some \<lparr>exit_status = Some 1, files_of = fs, remote = r,
                 trace = [Print PHASE2_BANNER, Print FATAL_CANNOT_RESUME]\<rparr>"
  using assms unfolding run_execution_phase_def by auto

section \<open>Lemmas on a run\<close>

lemma is_quota_quota_error [simp]: "is_quota quota_error"
  by (simp add: is_quota_def quota_error_def lower_def lower_char_def)

lemma is_quota_not_found [simp]: "\<not> is_quota not_found"
  by (simp add: is_quota_def not_found_def)

lemma pending_tracks_Nil [simp]: "pending_tracks [] = []"
  by (simp add: pending_tracks_def)

lemma pending_tracks_Cons:
  "pending_tracks (t # ts) =
     (if t_status t = PENDING then [0] else []) @ map Suc (pending_tracks ts)"
proof -
  have "[0..<length (t # ts)] = 0 # map Suc [0..<length ts]"
    by (simp add: upt_conv_Cons map_Suc_upt del: upt_Suc)
  then show ?thesis
    by (simp add: pending_tracks_def filter_map comp_def del: upt_Suc)
qed

text \<open>The execution phase on files of the expected shape.\<close>

lemma run_execution_phase_resumed:
  assumes "fs STATE_FILE = Some (Parsed (Run_state ps))"
    and "fs VIDEO_INFO_CACHE_FILE = Some (Parsed (Video_info info))" and "info \<noteq> []"
  shows "run_execution_phase yt fs r =
     Some (let res = process_playlists yt info [0..<length ps] ps r
           in if interrupted res
              then save_and_exit (current res) fs (remote_of res) (Print PHASE2_BANNER # events res)
              else \<lparr>exit_status = None,
                    files_of = save_state (Run_state (current res)) STATE_FILE fs,
                    remote = remote_of res,
                    trace = Print PHASE2_BANNER # events res @ [Print EXECUTION_COMPLETE]\<rparr>)"
  using assms by (simp add: run_execution_phase_def Let_def)

lemma demo_positions: "[0..<length demo_state] = [0, 1]"
  by (simp add: demo_state_def upt_conv_Cons)

lemma demo_loop_4:
  "process_playlists budget_client demo_info [0..<length demo_state] demo_state 4 =
     Progress True demo_saved 0 demo_events"
  unfolding demo_positions
  by (simp add: demo_state_def demo_info_def demo_saved_def demo_events_def budget_client_def
        Let_def before_def create_playlist_on_youtube_def add_video_to_playlist_def no_id_def
        add_and_check_def add_pending_def pending_tracks_Cons index_to_video_id_def)

lemma demo_run_4: "run_execution_phase budget_client demo_files 4 = Some demo_outcome"
  unfolding demo_outcome_def
  by (subst run_execution_phase_resumed [of demo_files demo_state demo_info])
     (simp_all add: demo_files_def demo_loop_4, simp add: demo_info_def)

lemma run_execution_phase_state:
  assumes "fs STATE_FILE = Some (Parsed (Run_state ps))"
    and "run_execution_phase yt fs r = Some out"
  shows "\<exists>ps'. files_of out STATE_FILE = Some (Parsed (Run_state ps'))
           \<and> (ps' = ps \<or> (\<exists>info. ps' = current (process_playlists yt info [0..<length ps] ps r)))"
proof (cases "fs VIDEO_INFO_CACHE_FILE")
  case None
  then show ?thesis
    using assms run_execution_phase_fatal [of fs "Some (Run_state ps)" None yt r] by auto
next
  case (Some c)
  show ?thesis
  proof (cases c)
    case (Unreadable e)
    then show ?thesis
      using assms Some by (auto simp: run_execution_phase_def uncaught_def)
  next
    case (Parsed d)
    show ?thesis
    proof (cases "truthy (Some d)")
      case False
      then show ?thesis
        using assms Some Parsed run_execution_phase_fatal [of fs "Some (Run_state ps)" "Some d" yt r]
        by auto
    next
      case True
      show ?thesis
      proof (cases d)
        case (Video_info info)
        then have ne: "info \<noteq> []" using True by simp
        have c: "fs VIDEO_INFO_CACHE_FILE = Some (Parsed (Video_info info))"
          using Some Parsed Video_info by simp
        from run_execution_phase_resumed [OF assms(1) c ne, of yt r] assms(2)
        show ?thesis
          by (auto simp: Let_def save_and_exit_def save_state_def split: if_splits)
      next
        case (Run_state qs)
        then show ?thesis
          using assms Some Parsed by (simp add: run_execution_phase_def)
      next
        case (Other j)
        then show ?thesis
          using assms Some Parsed True by (simp add: run_execution_phase_def)
      qed
    qed
  qed
qed

lemma upt_in_range: "\<forall>k\<in>set [0..<length ps]. k < length ps"
  by simp

lemma empty_run: "run_execution_phase budget_client empty_files 4 = Some empty_outcome"
proof -
  have loop: "process_playlists budget_client demo_info [0..<length empty_plan] empty_plan 4 =
      Progress False empty_done 3
        [Print (CREATING ''Empty''),
         Create_call ''Empty'' ''none'' (Inr (Some ''PL_Empty'')),
         Print (PROCESSING 0 ''Empty''), Print (FULLY_COMPLETE ''Empty'')]"
    by (simp add: empty_plan_def empty_done_def budget_client_def Let_def before_def
          create_playlist_on_youtube_def no_id_def add_and_check_def add_pending_def)
  show ?thesis
    unfolding empty_outcome_def
    by (subst run_execution_phase_resumed [of empty_files empty_plan demo_info])
       (simp_all add: empty_files_def loop save_state_def, simp add: demo_info_def)
qed

section \<open>Counting tracks and requests\<close>

lemma length_filter_update_drop:
  "i < length xs \<Longrightarrow> P (xs ! i) \<Longrightarrow> \<not> P x
     \<Longrightarrow> length (filter P (xs[i := x])) + 1 = length (filter P xs)"
proof (induction xs arbitrary: i)
  case Nil
  then show ?case by simp
next
  case (Cons a xs)
  then show ?case by (cases i) auto
qed

lemma count_tracks_pending_update:
  "i < length ts \<Longrightarrow> t_status (ts ! i) = PENDING \<Longrightarrow> s \<noteq> PENDING
     \<Longrightarrow> count_tracks PENDING (ts[i := (ts ! i)\<lparr>t_status := s\<rparr>]) + 1 = count_tracks PENDING ts"
  unfolding count_tracks_def by (rule length_filter_update_drop) auto

lemma add_tracks_count_pending:
  "distinct is \<Longrightarrow> \<forall>i\<in>set is. i < length ts \<and> t_status (ts ! i) = PENDING
     \<Longrightarrow> count_tracks PENDING (current (add_tracks yt info pid is ts r))
           + length (filter inserted (events (add_tracks yt info pid is ts r)))
           + length (filter rejected (events (add_tracks yt info pid is ts r)))
         \<le> count_tracks PENDING ts"
proof (induction "is" arbitrary: ts r)
  case Nil
  then show ?case by simp
next
  case (Cons i "is")
  have rest: "\<forall>j\<in>set is. j < length (ts[i := x]) \<and> t_status (ts[i := x] ! j) = PENDING" for x
    using Cons.prems by (auto simp: nth_list_update)
  have d: "distinct is" using Cons.prems by simp
  have i: "i < length ts" "t_status (ts ! i) = PENDING" using Cons.prems by auto
  have step: "count_tracks PENDING (current (add_tracks yt info pid is (ts[i := (ts ! i)\<lparr>t_status := s\<rparr>]) r'))
           + length (filter inserted (events (add_tracks yt info pid is (ts[i := (ts ! i)\<lparr>t_status := s\<rparr>]) r')))
           + length (filter rejected (events (add_tracks yt info pid is (ts[i := (ts ! i)\<lparr>t_status := s\<rparr>]) r')))
           + 1 \<le> count_tracks PENDING ts" if "s \<noteq> PENDING" for s r'
    using Cons.IH [OF d rest, of "(ts ! i)\<lparr>t_status := s\<rparr>" r']
      count_tracks_pending_update [OF i that] by simp
  show ?case
    using step [of SKIPPED r] step [of COMPLETED] step [of FAILED]
    by (auto split: option.splits prod.splits sum.splits simp: le_Suc_eq dest: Suc_leD)
qed

lemma count_status_update:
  "k < length ps \<Longrightarrow>
   count_status s (ps[k := x]) + count_tracks s (tracks (ps ! k))
     = count_status s ps + count_tracks s (tracks x)"
  unfolding count_status_def
proof (induction ps arbitrary: k)
  case Nil
  then show ?case by simp
next
  case (Cons a ps)
  then show ?case by (cases k) auto
qed

lemma count_status_same_tracks:
  "k < length ps \<Longrightarrow> tracks x = tracks (ps ! k) \<Longrightarrow> count_status s (ps[k := x]) = count_status s ps"
  using count_status_update [of k ps s x] by simp

text \<open>What the track pass of one playlist reports, read off its events.\<close>

lemma add_and_check_filter:
  assumes "\<And>m. \<not> P (Print m)"
  shows "filter P (events (add_and_check yt info k ps r)) =
         filter P (events (add_pending yt info (ps ! k) r))"
  using assms by (simp add: add_and_check_def Let_def)

lemma add_pending_counts:
  "count_tracks COMPLETED (current (add_pending yt info pl r))
     = count_tracks COMPLETED (tracks pl) + length (filter inserted (events (add_pending yt info pl r)))"
  "count_tracks FAILED (current (add_pending yt info pl r))
     = count_tracks FAILED (tracks pl) + length (filter rejected (events (add_pending yt info pl r)))"
  "count_tracks PENDING (current (add_pending yt info pl r))
       + length (filter inserted (events (add_pending yt info pl r)))
       + length (filter rejected (events (add_pending yt info pl r)))
     \<le> count_tracks PENDING (tracks pl)"
  unfolding add_pending_def
  by (intro add_tracks_count_completed add_tracks_count_failed add_tracks_count_pending
        pending_tracks_distinct pending_tracks_all)+

lemma process_playlists_counts:
  assumes "\<forall>k\<in>set ks. k < length ps"
  shows "count_status COMPLETED (current (process_playlists yt info ks ps r))
           = count_status COMPLETED ps + length (filter inserted (events (process_playlists yt info ks ps r)))
       \<and> count_status FAILED (current (process_playlists yt info ks ps r))
           = count_status FAILED ps + length (filter rejected (events (process_playlists yt info ks ps r)))
       \<and> count_status PENDING (current (process_playlists yt info ks ps r))
           + length (filter inserted (events (process_playlists yt info ks ps r)))
           + length (filter rejected (events (process_playlists yt info ks ps r)))
           \<le> count_status PENDING ps"
proof -
  define R :: "playlist list \<Rightarrow> bool \<Rightarrow> event list \<Rightarrow> playlist list \<Rightarrow> bool" where
    "R = (\<lambda>a q evs b.
            count_status COMPLETED b = count_status COMPLETED a + length (filter inserted evs)
          \<and> count_status FAILED b = count_status FAILED a + length (filter rejected evs)
          \<and> count_status PENDING b + length (filter inserted evs) + length (filter rejected evs)
              \<le> count_status PENDING a)"
  have "R ps (interrupted (process_playlists yt info ks ps r))
           (events (process_playlists yt info ks ps r))
           (current (process_playlists yt info ks ps r))"
  proof (rule process_playlists_rule [OF assms])
    show "R ps False [] ps" for ps by (simp add: R_def)
  next
    fix a e1 b q e2 c
    assume "R a False e1 b" "R b q e2 c"
    then show "R a q (e1 @ e2) c" unfolding R_def by simp
  next
    fix ps :: "playlist list" and k pid
    assume "k < length ps"
    then show "R ps False
              [Print (CREATING (playlist_title (ps ! k))),
               Create_call (playlist_title (ps ! k)) (playlist_description (ps ! k)) (Inr pid)]
              (ps[k := (ps ! k)\<lparr>youtube_playlist_id := pid\<rparr>])"
      by (simp add: R_def count_status_same_tracks)
  next
    fix ps :: "playlist list" and k r
    assume k: "k < length ps"
    let ?T = "current (add_pending yt info (ps ! k) r)"
    let ?E = "events (add_pending yt info (ps ! k) r)"
    have upd: "count_status s (current (add_and_check yt info k ps r)) + count_tracks s (tracks (ps ! k))
                 = count_status s ps + count_tracks s ?T" for s
      using count_status_update [OF k, of s] by (simp add: add_and_check_current [OF k])
    have ev: "filter inserted (events (add_and_check yt info k ps r)) = filter inserted ?E"
             "filter rejected (events (add_and_check yt info k ps r)) = filter rejected ?E"
      by (simp_all add: add_and_check_filter)
    show "R ps (interrupted (add_and_check yt info k ps r))
              (events (add_and_check yt info k ps r))
              (current (add_and_check yt info k ps r))"
      unfolding R_def ev
      using upd [of COMPLETED] upd [of FAILED] upd [of PENDING]
        add_pending_counts [of yt info "ps ! k" r]
      by linarith
  qed (simp_all add: R_def)
  then show ?thesis by (simp add: R_def)
qed

text \<open>A quota error ends the loop, and nothing else does.\<close>

lemma process_playlists_quota:
  assumes "\<forall>k\<in>set ks. k < length ps"
  shows "if interrupted (process_playlists yt info ks ps r)
         then \<exists>pre c m. events (process_playlists yt info ks ps r) = pre @ [c, Print m]
                 \<and> quota_hit c \<and> (\<forall>ev\<in>set pre. \<not> quota_hit ev)
         else \<forall>ev\<in>set (events (process_playlists yt info ks ps r)). \<not> quota_hit ev"
proof -
  define R :: "playlist list \<Rightarrow> bool \<Rightarrow> event list \<Rightarrow> playlist list \<Rightarrow> bool" where
    "R = (\<lambda>a q evs b.
            if q then \<exists>pre c m. evs = pre @ [c, Print m] \<and> quota_hit c \<and> (\<forall>ev\<in>set pre. \<not> quota_hit ev)
            else \<forall>ev\<in>set evs. \<not> quota_hit ev)"
  have "R ps (interrupted (process_playlists yt info ks ps r))
           (events (process_playlists yt info ks ps r))
           (current (process_playlists yt info ks ps r))"
  proof (rule process_playlists_rule [OF assms])
    show "R ps False [] ps" for ps by (simp add: R_def)
  next
    fix a e1 b q e2 c
    assume ab: "R a False e1 b" and bc: "R b q e2 c"
    show "R a q (e1 @ e2) c"
    proof (cases q)
      case False
      then show ?thesis using ab bc by (auto simp: R_def)
    next
      case True
      then obtain pre x m where "e2 = pre @ [x, Print m]" "quota_hit x" "\<forall>ev\<in>set pre. \<not> quota_hit ev"
        using bc by (auto simp: R_def)
      then have "e1 @ e2 = (e1 @ pre) @ [x, Print m] \<and> quota_hit x \<and> (\<forall>ev\<in>set (e1 @ pre). \<not> quota_hit ev)"
        using ab by (auto simp: R_def)
      then show ?thesis using True unfolding R_def by (simp only: if_True) blast
    qed
  next
    fix ps :: "playlist list" and k e
    assume "is_quota e"
    then have "[Print (CREATING (playlist_title (ps ! k))),
               Create_call (playlist_title (ps ! k)) (playlist_description (ps ! k)) (Inl e),
               Print QUOTA_CREATING]
             = [Print (CREATING (playlist_title (ps ! k)))]
               @ [Create_call (playlist_title (ps ! k)) (playlist_description (ps ! k)) (Inl e), Print QUOTA_CREATING]
           \<and> quota_hit (Create_call (playlist_title (ps ! k)) (playlist_description (ps ! k)) (Inl e))
           \<and> (\<forall>ev\<in>set [Print (CREATING (playlist_title (ps ! k)))]. \<not> quota_hit ev)"
      by simp
    then show "R ps True
              [Print (CREATING (playlist_title (ps ! k))),
               Create_call (playlist_title (ps ! k)) (playlist_description (ps ! k)) (Inl e),
               Print QUOTA_CREATING] ps"
      unfolding R_def by (simp only: if_True) blast
  next
    fix ps :: "playlist list" and k r
    let ?ap = "add_pending yt info (ps ! k) r"
    let ?ac = "add_and_check yt info k ps r"
    obtain tail where ev: "events ?ac =
        Print (PROCESSING (length (pending_tracks (tracks (ps ! k)))) (playlist_title (ps ! k)))
          # events ?ap @ tail"
      and tail: "tail = [] \<or> tail = [Print (FULLY_COMPLETE (playlist_title (ps ! k)))]"
      and stop: "interrupted ?ac \<longrightarrow> tail = []"
      using add_and_check_events [of yt info k ps r] by blast
    have int: "interrupted ?ac = interrupted ?ap" by (rule add_and_check_interrupted)
    show "R ps (interrupted ?ac) (events ?ac) (current ?ac)"
    proof (cases "interrupted ?ac")
      case True
      then have "interrupted (add_tracks yt info (youtube_playlist_id (ps ! k))
                   (pending_tracks (tracks (ps ! k))) (tracks (ps ! k)) r)"
        using int by (simp add: add_pending_def)
      from add_tracks_quota_last [OF this] obtain pre c where
        "events ?ap = pre @ [c, Print QUOTA_ADDING]" "quota_hit c" "\<forall>ev\<in>set pre. \<not> quota_hit ev"
        by (auto simp: add_pending_def)
      then have "events ?ac =
          (Print (PROCESSING (length (pending_tracks (tracks (ps ! k)))) (playlist_title (ps ! k))) # pre)
            @ [c, Print QUOTA_ADDING]
          \<and> quota_hit c
          \<and> (\<forall>ev\<in>set (Print (PROCESSING (length (pending_tracks (tracks (ps ! k)))) (playlist_title (ps ! k))) # pre).
                \<not> quota_hit ev)"
        using ev stop True by simp
      then show ?thesis using True unfolding R_def by (simp only: if_True) blast
    next
      case False
      then have ni: "\<not> interrupted (add_tracks yt info (youtube_playlist_id (ps ! k))
                   (pending_tracks (tracks (ps ! k))) (tracks (ps ! k)) r)"
        using int by (simp add: add_pending_def)
      have "\<forall>ev\<in>set (events ?ap). \<not> quota_hit ev"
        unfolding add_pending_def using add_tracks_quiet [OF ni] by blast
      then show ?thesis using False ev tail by (auto simp: R_def)
    qed
  qed (simp_all add: R_def)
  then show ?thesis by (simp add: R_def)
qed

text \<open>The remote id that a creation request returned is in the run state.\<close>

lemma process_playlists_ids:
  assumes "\<forall>k\<in>set ks. k < length ps"
  shows "\<forall>ttl descr pid.
           Create_call ttl descr (Inr pid) \<in> set (events (process_playlists yt info ks ps r)) \<and> \<not> no_id pid \<longrightarrow>
             (\<exists>j<length ps. playlist_title (current (process_playlists yt info ks ps r) ! j) = ttl
                  \<and> youtube_playlist_id (current (process_playlists yt info ks ps r) ! j) = pid)"
proof -
  define R :: "playlist list \<Rightarrow> bool \<Rightarrow> event list \<Rightarrow> playlist list \<Rightarrow> bool" where
    "R = (\<lambda>a q evs b. length b = length a
            \<and> (\<forall>j<length a. playlist_title (b ! j) = playlist_title (a ! j)
                  \<and> (\<not> no_id (youtube_playlist_id (a ! j)) \<longrightarrow>
                        youtube_playlist_id (b ! j) = youtube_playlist_id (a ! j)))
            \<and> (\<forall>ttl descr pid. Create_call ttl descr (Inr pid) \<in> set evs \<and> \<not> no_id pid \<longrightarrow>
                  (\<exists>j<length a. playlist_title (b ! j) = ttl \<and> youtube_playlist_id (b ! j) = pid)))"
  have "R ps (interrupted (process_playlists yt info ks ps r))
           (events (process_playlists yt info ks ps r))
           (current (process_playlists yt info ks ps r))"
  proof (rule process_playlists_rule [OF assms])
    show "R ps False [] ps" for ps by (simp add: R_def)
  next
    fix a e1 b q e2 c
    assume ab: "R a False e1 b" and bc: "R b q e2 c"
    have len: "length b = length a" "length c = length b" using ab bc by (simp_all add: R_def)
    have keep: "playlist_title (c ! j) = playlist_title (b ! j)
                \<and> (\<not> no_id (youtube_playlist_id (b ! j)) \<longrightarrow>
                        youtube_playlist_id (c ! j) = youtube_playlist_id (b ! j))"
      if "j < length a" for j
      using bc that len by (simp add: R_def)
    have keep0: "playlist_title (b ! j) = playlist_title (a ! j)
                \<and> (\<not> no_id (youtube_playlist_id (a ! j)) \<longrightarrow>
                        youtube_playlist_id (b ! j) = youtube_playlist_id (a ! j))"
      if "j < length a" for j
      using ab that by (simp add: R_def)
    show "R a q (e1 @ e2) c"
      unfolding R_def
    proof (intro conjI allI impI)
      show "length c = length a" using len by simp
    next
      fix j assume "j < length a"
      then show "playlist_title (c ! j) = playlist_title (a ! j)" using keep keep0 by simp
    next
      fix j assume "j < length a" "\<not> no_id (youtube_playlist_id (a ! j))"
      then show "youtube_playlist_id (c ! j) = youtube_playlist_id (a ! j)"
        using keep [of j] keep0 [of j] by simp
    next
      fix ttl descr pid
      assume h: "Create_call ttl descr (Inr pid) \<in> set (e1 @ e2) \<and> \<not> no_id pid"
      then consider "Create_call ttl descr (Inr pid) \<in> set e1" | "Create_call ttl descr (Inr pid) \<in> set e2"
        by auto
      then show "\<exists>j<length a. playlist_title (c ! j) = ttl \<and> youtube_playlist_id (c ! j) = pid"
      proof cases
        case 1
        from ab have "\<forall>ttl descr pid. Create_call ttl descr (Inr pid) \<in> set e1 \<and> \<not> no_id pid \<longrightarrow>
                  (\<exists>j<length a. playlist_title (b ! j) = ttl \<and> youtube_playlist_id (b ! j) = pid)"
          unfolding R_def by blast
        with 1 h obtain j where "j < length a" "playlist_title (b ! j) = ttl" "youtube_playlist_id (b ! j) = pid"
          by blast
        then show ?thesis using keep [of j] h by auto
      next
        case 2
        from bc have "\<forall>ttl descr pid. Create_call ttl descr (Inr pid) \<in> set e2 \<and> \<not> no_id pid \<longrightarrow>
                  (\<exists>j<length b. playlist_title (c ! j) = ttl \<and> youtube_playlist_id (c ! j) = pid)"
          unfolding R_def by blast
        with 2 h len show ?thesis by auto
      qed
    qed
  next
    fix ps :: "playlist list" and k pid
    assume "k < length ps" "no_id (youtube_playlist_id (ps ! k))"
    then show "R ps False
              [Print (CREATING (playlist_title (ps ! k))),
               Create_call (playlist_title (ps ! k)) (playlist_description (ps ! k)) (Inr pid)]
              (ps[k := (ps ! k)\<lparr>youtube_playlist_id := pid\<rparr>])"
      by (auto simp: R_def nth_list_update)
  next
    fix ps :: "playlist list" and k r
    assume k: "k < length ps"
    have "ev \<in> set (events (add_and_check yt info k ps r)) \<Longrightarrow> \<not> is_create ev" for ev
      using add_tracks_no_create [of ev yt info "youtube_playlist_id (ps ! k)"
          "pending_tracks (tracks (ps ! k))" "tracks (ps ! k)" r]
      by (auto simp: add_and_check_def Let_def add_pending_def split: if_splits)
    then have "Create_call ttl descr a \<notin> set (events (add_and_check yt info k ps r))" for ttl descr a
      by fastforce
    then show "R ps (interrupted (add_and_check yt info k ps r))
              (events (add_and_check yt info k ps r))
              (current (add_and_check yt info k ps r))"
      using k by (auto simp: R_def add_and_check_current nth_list_update)
  qed (simp_all add: R_def)
  then show ?thesis unfolding R_def by blast
qed

text \<open>How a run on a state file of the expected shape can end.\<close>

lemma run_execution_phase_cases:
  assumes "fs STATE_FILE = Some (Parsed (Run_state ps))"
    and "run_execution_phase yt fs r = Some out"
  obtains
    (unreadable) e where "fs VIDEO_INFO_CACHE_FILE = Some (Unreadable e)"
      "out = uncaught e fs r [Print PHASE2_BANNER]"
  | (fatal) "out = \<lparr>exit_status = Some 1, files_of = fs, remote = r,
                    trace = [Print PHASE2_BANNER, Print FATAL_CANNOT_RESUME]\<rparr>"
  | (quota) info where "fs VIDEO_INFO_CACHE_FILE = Some (Parsed (Video_info info))" "info \<noteq> []"
      "interrupted (process_playlists yt info [0..<length ps] ps r)"
      "out = save_and_exit (current (process_playlists yt info [0..<length ps] ps r)) fs
               (remote_of (process_playlists yt info [0..<length ps] ps r))
               (Print PHASE2_BANNER # events (process_playlists yt info [0..<length ps] ps r))"
  | (finished) info where "fs VIDEO_INFO_CACHE_FILE = Some (Parsed (Video_info info))" "info \<noteq> []"
      "\<not> interrupted (process_playlists yt info [0..<length ps] ps r)"
      "out = \<lparr>exit_status = None,
              files_of = save_state (Run_state (current (process_playlists yt info [0..<length ps] ps r)))
                           STATE_FILE fs,
              remote = remote_of (process_playlists yt info [0..<length ps] ps r),
              trace = Print PHASE2_BANNER # events (process_playlists yt info [0..<length ps] ps r)
                        @ [Print EXECUTION_COMPLETE]\<rparr>"
proof (cases "fs VIDEO_INFO_CACHE_FILE")
  case None
  then show ?thesis
    using assms fatal run_execution_phase_fatal [of fs "Some (Run_state ps)" None yt r] by auto
next
  case (Some c)
  show ?thesis
  proof (cases c)
    case (Unreadable e)
    then show ?thesis
      using assms Some unreadable [of e] by (auto simp: run_execution_phase_def)
  next
    case (Parsed d)
    show ?thesis
    proof (cases "truthy (Some d)")
      case False
      then show ?thesis
        using assms Some Parsed fatal
          run_execution_phase_fatal [of fs "Some (Run_state ps)" "Some d" yt r]
        by auto
    next
      case True
      show ?thesis
      proof (cases d)
        case (Video_info info)
        then have ne: "info \<noteq> []" using True by simp
        have c: "fs VIDEO_INFO_CACHE_FILE = Some (Parsed (Video_info info))"
          using Some Parsed Video_info by simp
        from run_execution_phase_resumed [OF assms(1) c ne, of yt r] assms(2)
        show ?thesis
          using quota [OF c ne] finished [OF c ne]
          by (cases "interrupted (process_playlists yt info [0..<length ps] ps r)")
             (simp_all add: Let_def)
      next
        case (Run_state qs)
        then show ?thesis
          using assms Some Parsed by (simp add: run_execution_phase_def)
      next
        case (Other j)
        then show ?thesis
          using assms Some Parsed True by (simp add: run_execution_phase_def)
      qed
    qed
  qed
qed

section \<open>Lemmas on successive runs\<close>







lemma done_run:
  "run_execution_phase budget_client done_files 4 =
     Some \<lparr>exit_status = None, files_of = done_files, remote = 4,
           trace = [Print PHASE2_BANNER, Print EXECUTION_COMPLETE]\<rparr>"
proof -
  have same: "done_files(STATE_FILE := Some (Parsed (Run_state done_state))) = done_files"
    by (rule fun_upd_idem) (simp add: done_files_def)
  have idle: "process_playlists budget_client demo_info [0..<length done_state] done_state 4
                = Progress False done_state 4 []"
    by (intro process_playlists_all_completed) (simp add: done_state_def nth_Cons split: nat.splits)
  show ?thesis
    by (subst run_execution_phase_resumed [of done_files done_state demo_info])
       (simp_all add: idle save_state_def same, simp_all add: done_files_def demo_info_def)
qed




section \<open>Resuming from an empty document\<close>

text \<open>
  Claim C10. Let the state file or the cache file exist and its content parse to a falsy
  value (\<^verbatim>\<open>{}\<close>, \<^verbatim>\<open>[]\<close>, \<^verbatim>\<open>null\<close>, \<^verbatim>\<open>0\<close>, ...). Whatever the other file is, the
  execution phase ends as it does when that file is missing: same exit status, same
  output, no request. When the other file is missing or can be read as JSON, so that both
  loads return, this end is the cannot-resume message with exit status 1, and the files
  are left as they are. (When the other file exists and cannot be read, its load raises
  before the check, with the falsy file and with the missing file alike.)
\<close>

theorem falsy_file_like_missing:
  assumes "(p = STATE_FILE \<and> q = VIDEO_INFO_CACHE_FILE) \<or> (p = VIDEO_INFO_CACHE_FILE \<and> q = STATE_FILE)"
    and "fs p = Some (Parsed d)" and "\<not> truthy (Some d)"
  shows "map_option (\<lambda>out. (exit_status out, remote out, trace out)) (run_execution_phase yt fs r) =
         map_option (\<lambda>out. (exit_status out, remote out, trace out))
           (run_execution_phase yt (fs(p := None)) r)
       \<and> ((\<forall>e. fs q \<noteq> Some (Unreadable e)) \<longrightarrow>
            run_execution_phase yt fs r =
              Some \<lparr>exit_status = Some 1, files_of = fs, remote = r,
                    trace = [Print PHASE2_BANNER, Print FATAL_CANNOT_RESUME]\<rparr>
          \<and> run_execution_phase yt (fs(p := None)) r =
              Some \<lparr>exit_status = Some 1, files_of = fs(p := None), remote = r,
                    trace = [Print PHASE2_BANNER, Print FATAL_CANNOT_RESUME]\<rparr>)"
proof -
  have pq: "q \<noteq> p" using assms(1) by auto
  have fatal: "run_execution_phase yt fs r =
           Some \<lparr>exit_status = Some 1, files_of = fs, remote = r,
                 trace = [Print PHASE2_BANNER, Print FATAL_CANNOT_RESUME]\<rparr>
       \<and> run_execution_phase yt (fs(p := None)) r =
           Some \<lparr>exit_status = Some 1, files_of = fs(p := None), remote = r,
                 trace = [Print PHASE2_BANNER, Print FATAL_CANNOT_RESUME]\<rparr>"
    if "load_state fs q = Inr b" for b
  proof -
    have lq: "load_state (fs(p := None)) q = Inr b" using that pq by simp
    have lp: "load_state fs p = Inr (Some d)" using assms(2) by simp
    from assms(1) show ?thesis
    proof
      assume "p = STATE_FILE \<and> q = VIDEO_INFO_CACHE_FILE"
      then show ?thesis
        using that lq lp assms(3)
          run_execution_phase_fatal [of fs "Some d" b yt r]
          run_execution_phase_fatal [of "fs(p := None)" None b yt r]
        by simp
    next
      assume "p = VIDEO_INFO_CACHE_FILE \<and> q = STATE_FILE"
      then show ?thesis
        using that lq lp assms(3)
          run_execution_phase_fatal [of fs b "Some d" yt r]
          run_execution_phase_fatal [of "fs(p := None)" b None yt r]
        by simp
    qed
  qed
  have when_readable: "(\<forall>e. fs q \<noteq> Some (Unreadable e)) \<longrightarrow>
         run_execution_phase yt fs r =
           Some \<lparr>exit_status = Some 1, files_of = fs, remote = r,
                 trace = [Print PHASE2_BANNER, Print FATAL_CANNOT_RESUME]\<rparr>
       \<and> run_execution_phase yt (fs(p := None)) r =
           Some \<lparr>exit_status = Some 1, files_of = fs(p := None), remote = r,
                 trace = [Print PHASE2_BANNER, Print FATAL_CANNOT_RESUME]\<rparr>"
  proof
    assume readable: "\<forall>e. fs q \<noteq> Some (Unreadable e)"
    have "\<exists>b. load_state fs q = Inr b"
    proof (cases "fs q")
      case None
      then show ?thesis by simp
    next
      case (Some c)
      then show ?thesis using readable by (cases c) simp_all
    qed
    then obtain b where "load_state fs q = Inr b" ..
    then show "run_execution_phase yt fs r =
           Some \<lparr>exit_status = Some 1, files_of = fs, remote = r,
                 trace = [Print PHASE2_BANNER, Print FATAL_CANNOT_RESUME]\<rparr>
       \<and> run_execution_phase yt (fs(p := None)) r =
           Some \<lparr>exit_status = Some 1, files_of = fs(p := None), remote = r,
                 trace = [Print PHASE2_BANNER, Print FATAL_CANNOT_RESUME]\<rparr>"
      by (rule fatal)
  qed
  have alike: "map_option (\<lambda>out. (exit_status out, remote out, trace out)) (run_execution_phase yt fs r) =
         map_option (\<lambda>out. (exit_status out, remote out, trace out))
           (run_execution_phase yt (fs(p := None)) r)"
  proof (cases "load_state fs q")
    case (Inr b)
    then show ?thesis using fatal [of b] by simp
  next
    case (Inl e)
    then have "load_state (fs(p := None)) q = Inl e" using pq by simp
    with Inl assms(1,2) show ?thesis
      by (auto simp: run_execution_phase_def uncaught_def)
  qed
  from alike when_readable show ?thesis by (rule conjI)
qed

theorem falsy_file_like_missing_witness:
  "run_execution_phase budget_client (demo_files(STATE_FILE := Some (Parsed (Other (JObj []))))) 4 =
     Some \<lparr>exit_status = Some 1,
           files_of = demo_files(STATE_FILE := Some (Parsed (Other (JObj [])))),
           remote = 4,
           trace = [Print PHASE2_BANNER, Print FATAL_CANNOT_RESUME]\<rparr>
   \<and> demo_files VIDEO_INFO_CACHE_FILE = Some (Parsed (Video_info demo_info))"
  using falsy_file_like_missing
    [of STATE_FILE VIDEO_INFO_CACHE_FILE
        "demo_files(STATE_FILE := Some (Parsed (Other (JObj []))))" "Other (JObj [])" budget_client 4]
  by (simp add: demo_files_def)

text \<open>
  Claim C6. In the run state that a run of the execution phase leaves in the state file,
  whether it ended normally, on a quota error, or before its loop, a playlist has status
  COMPLETED only if the run did not touch it (it is as it was in the state the run
  loaded) or none of its tracks is PENDING. So the execution phase marks a playlist
  COMPLETED only when all its tracks have a status other than PENDING, and when this
  holds of every COMPLETED playlist of the loaded state, it holds of the saved one.
\<close>

theorem completed_only_when_settled:
  assumes "fs STATE_FILE = Some (Parsed (Run_state ps))"
    and "run_execution_phase yt fs r = Some out"
  shows "\<exists>ps'. files_of out STATE_FILE = Some (Parsed (Run_state ps'))
           \<and> length ps' = length ps
           \<and> (\<forall>j<length ps. p_status (ps' ! j) = COMPLETED \<longrightarrow> ps' ! j = ps ! j \<or> settled (ps' ! j))
           \<and> ((\<forall>p\<in>set ps. p_status p = COMPLETED \<longrightarrow> settled p)
                \<longrightarrow> (\<forall>p\<in>set ps'. p_status p = COMPLETED \<longrightarrow> settled p))"
proof -
  from run_execution_phase_state [OF assms] obtain ps' where
    saved: "files_of out STATE_FILE = Some (Parsed (Run_state ps'))"
    and ps': "ps' = ps \<or> (\<exists>info. ps' = current (process_playlists yt info [0..<length ps] ps r))"
    by blast
  have len: "length ps' = length ps" using ps' by auto
  have only: "\<forall>j<length ps. p_status (ps' ! j) = COMPLETED \<longrightarrow> ps' ! j = ps ! j \<or> settled (ps' ! j)"
    using ps' process_playlists_completed_settled [OF upt_in_range, of ps yt _ r] by auto
  have inv: "\<forall>p\<in>set ps'. p_status p = COMPLETED \<longrightarrow> settled p"
    if "\<forall>p\<in>set ps. p_status p = COMPLETED \<longrightarrow> settled p"
  proof (intro ballI impI)
    fix p assume "p \<in> set ps'" "p_status p = COMPLETED"
    then obtain j where j: "j < length ps'" "ps' ! j = p" by (auto simp: in_set_conv_nth)
    with only len \<open>p_status p = COMPLETED\<close> have "p = ps ! j \<or> settled p" by auto
    moreover have "ps ! j \<in> set ps" using j len by simp
    ultimately show "settled p"
      using that \<open>p_status p = COMPLETED\<close> by auto
  qed
  from saved len only inv show ?thesis by blast
qed

theorem completed_only_when_settled_witness:
  "demo_files STATE_FILE = Some (Parsed (Run_state demo_state))
   \<and> run_execution_phase budget_client demo_files 4 = Some demo_outcome
   \<and> (\<exists>ps'. files_of demo_outcome STATE_FILE = Some (Parsed (Run_state ps'))
           \<and> length ps' = length demo_state
           \<and> (\<forall>j<length demo_state. p_status (ps' ! j) = COMPLETED \<longrightarrow> ps' ! j = demo_state ! j \<or> settled (ps' ! j))
           \<and> ((\<forall>p\<in>set demo_state. p_status p = COMPLETED \<longrightarrow> settled p)
                \<longrightarrow> (\<forall>p\<in>set ps'. p_status p = COMPLETED \<longrightarrow> settled p)))"
proof -
  have a: "demo_files STATE_FILE = Some (Parsed (Run_state demo_state))"
    by (simp add: demo_files_def)
  show ?thesis
    by (rule conjI [OF a conjI [OF demo_run_4 completed_only_when_settled [OF a demo_run_4]]])
qed

section \<open>Idle runs\<close>

text \<open>
  Claim C3, as stated, fails: a run state without any PENDING track can hold a playlist
  that is not COMPLETED. On the plan whose only playlist has no track, the execution phase
  sends a creation request and rewrites the state.
\<close>

theorem no_pending_track_counterexample:
  "list_all settled empty_plan
   \<and> empty_files STATE_FILE = Some (Parsed (Run_state empty_plan))
   \<and> run_execution_phase budget_client empty_files 4 = Some empty_outcome
   \<and> filter is_request (trace empty_outcome) = [Create_call ''Empty'' ''none'' (Inr (Some ''PL_Empty''))]
   \<and> files_of empty_outcome STATE_FILE \<noteq> Some (Parsed (Run_state empty_plan))"
  using empty_run
  by (simp add: empty_plan_def empty_done_def empty_files_def empty_outcome_def settled_def)

text \<open>
  Claim C3, amended. On a run state in which every playlist has status COMPLETED, a run of
  the execution phase sends no request and leaves the files and the remote service as
  they are, so that a second run starts from the same files and has the same outcome.
  With a cache that can be resumed from, the run ends normally.
\<close>

theorem all_completed_is_idle:
  assumes "fs STATE_FILE = Some (Parsed (Run_state ps))"
    and "\<forall>p\<in>set ps. p_status p = COMPLETED"
    and "run_execution_phase yt fs r = Some out"
  shows "filter is_request (trace out) = [] \<and> files_of out = fs \<and> remote out = r
       \<and> run_execution_phase yt (files_of out) (remote out) = Some out
       \<and> ((\<exists>info. fs VIDEO_INFO_CACHE_FILE = Some (Parsed (Video_info info)) \<and> info \<noteq> [])
            \<longrightarrow> out = \<lparr>exit_status = None, files_of = fs, remote = r,
                        trace = [Print PHASE2_BANNER, Print EXECUTION_COMPLETE]\<rparr>)"
proof -
  have same: "fs(STATE_FILE := Some (Parsed (Run_state ps))) = fs"
    using assms(1) by (rule fun_upd_idem)
  have idle: "process_playlists yt info [0..<length ps] ps r = Progress False ps r []" for info
    using assms(2) by (intro process_playlists_all_completed) simp
  have resumed: "out = \<lparr>exit_status = None, files_of = fs, remote = r,
                        trace = [Print PHASE2_BANNER, Print EXECUTION_COMPLETE]\<rparr>"
    if "fs VIDEO_INFO_CACHE_FILE = Some (Parsed (Video_info info))" "info \<noteq> []" for info
    using run_execution_phase_resumed [OF assms(1) that, of yt r] assms(3)
    by (simp add: idle save_state_def same)
  have "filter is_request (trace out) = [] \<and> files_of out = fs \<and> remote out = r"
  proof (cases "fs VIDEO_INFO_CACHE_FILE")
    case None
    then show ?thesis
      using assms run_execution_phase_fatal [of fs "Some (Run_state ps)" None yt r] by auto
  next
    case (Some c)
    show ?thesis
    proof (cases c)
      case (Unreadable e)
      then show ?thesis
        using assms Some by (auto simp: run_execution_phase_def uncaught_def)
    next
      case (Parsed d)
      show ?thesis
      proof (cases "truthy (Some d)")
        case False
        then show ?thesis
          using assms Some Parsed
            run_execution_phase_fatal [of fs "Some (Run_state ps)" "Some d" yt r]
          by auto
      next
        case True
        show ?thesis
        proof (cases d)
          case (Video_info info)
          then show ?thesis using resumed [of info] Some Parsed True by simp
        next
          case (Run_state qs)
          then show ?thesis
            using assms Some Parsed by (simp add: run_execution_phase_def)
        next
          case (Other j)
          then show ?thesis
            using assms Some Parsed True by (simp add: run_execution_phase_def)
        qed
      qed
    qed
  qed
  with assms(3) resumed show ?thesis by auto
qed

theorem all_completed_is_idle_witness:
  "done_files STATE_FILE = Some (Parsed (Run_state done_state))
   \<and> list_all (\<lambda>p. p_status p = COMPLETED) done_state
   \<and> run_execution_phase budget_client done_files 4 =
       Some \<lparr>exit_status = None, files_of = done_files, remote = 4,
             trace = [Print PHASE2_BANNER, Print EXECUTION_COMPLETE]\<rparr>
   \<and> filter is_request [Print PHASE2_BANNER, Print EXECUTION_COMPLETE] = []"
proof -
  have a: "done_files STATE_FILE = Some (Parsed (Run_state done_state))"
    by (simp add: done_files_def)
  have b: "\<forall>p\<in>set done_state. p_status p = COMPLETED"
    by (simp add: done_state_def)
  from all_completed_is_idle [OF a b done_run] a b done_run show ?thesis
    by (simp add: list_all_iff)
qed

section \<open>The quota exit\<close>

text \<open>
  Claim C1. Let a run of the execution phase on a state file of the expected shape send
  a request (a playlist creation or a track insertion) that fails with an HTTP 403 error
  whose text contains \<^verbatim>\<open>quota\<close>. Then the process ends with exit status 0; the failed
  request is the last request of the run, followed only by the two printed notices; and
  the state file holds the whole run state as it is at that moment: as many playlists as
  were loaded, one more COMPLETED track for every insertion that succeeded in this run,
  one more FAILED track for every insertion that was rejected, and the remote id of every
  playlist this run created.
\<close>

theorem quota_error_saves_and_exits:
  assumes "fs STATE_FILE = Some (Parsed (Run_state ps))"
    and "run_execution_phase yt fs r = Some out"
    and "\<exists>ev\<in>set (trace out). quota_hit ev"
  shows "exit_status out = Some 0
       \<and> (\<exists>pre c m. trace out = pre @ [c, Print m, Print QUOTA_SAVED]
             \<and> quota_hit c \<and> (\<forall>ev\<in>set pre. \<not> quota_hit ev))
       \<and> (\<exists>ps'. files_of out = fs(STATE_FILE := Some (Parsed (Run_state ps')))
             \<and> length ps' = length ps
             \<and> count_status COMPLETED ps' = count_status COMPLETED ps + length (filter inserted (trace out))
             \<and> count_status FAILED ps' = count_status FAILED ps + length (filter rejected (trace out))
             \<and> (\<forall>ttl descr pid. Create_call ttl descr (Inr pid) \<in> set (trace out) \<and> \<not> no_id pid \<longrightarrow>
                   (\<exists>j<length ps'. playlist_title (ps' ! j) = ttl \<and> youtube_playlist_id (ps' ! j) = pid)))"
proof -
  have rng: "\<forall>k\<in>set [0..<length ps]. k < length ps" by simp
  from assms(1,2) show ?thesis
  proof (cases rule: run_execution_phase_cases)
  case (unreadable e)
  then show ?thesis using assms(3) by (simp add: uncaught_def)
next
  case fatal
  then show ?thesis using assms(3) by simp
next
  case (finished info)
  let ?res = "process_playlists yt info [0..<length ps] ps r"
  have "\<forall>ev\<in>set (events ?res). \<not> quota_hit ev"
    using process_playlists_quota [OF rng, of yt info r] finished(3) by simp
  then show ?thesis using assms(3) finished(4) by auto
next
  case (quota info)
  let ?res = "process_playlists yt info [0..<length ps] ps r"
  from process_playlists_quota [OF rng, of yt info r] quota(3)
  obtain pre c m where ev: "events ?res = pre @ [c, Print m]" "quota_hit c" "\<forall>ev\<in>set pre. \<not> quota_hit ev"
    by auto
  have tr: "trace out = Print PHASE2_BANNER # events ?res @ [Print QUOTA_SAVED]"
    using quota(4) by (simp add: save_and_exit_def)
  have "trace out = (Print PHASE2_BANNER # pre) @ [c, Print m, Print QUOTA_SAVED]
        \<and> quota_hit c \<and> (\<forall>ev\<in>set (Print PHASE2_BANNER # pre). \<not> quota_hit ev)"
    using tr ev by simp
  then have last: "\<exists>pre c m. trace out = pre @ [c, Print m, Print QUOTA_SAVED]
             \<and> quota_hit c \<and> (\<forall>ev\<in>set pre. \<not> quota_hit ev)"
    by blast
  have filt: "filter inserted (trace out) = filter inserted (events ?res)"
             "filter rejected (trace out) = filter rejected (events ?res)"
    using tr by simp_all
  have ids: "\<forall>ttl descr pid. Create_call ttl descr (Inr pid) \<in> set (trace out) \<and> \<not> no_id pid \<longrightarrow>
                   (\<exists>j<length (current ?res). playlist_title (current ?res ! j) = ttl
                        \<and> youtube_playlist_id (current ?res ! j) = pid)"
    using process_playlists_ids [OF rng, of yt info r] tr by simp
  have "files_of out = fs(STATE_FILE := Some (Parsed (Run_state (current ?res))))
             \<and> length (current ?res) = length ps
             \<and> count_status COMPLETED (current ?res) = count_status COMPLETED ps + length (filter inserted (trace out))
             \<and> count_status FAILED (current ?res) = count_status FAILED ps + length (filter rejected (trace out))
             \<and> (\<forall>ttl descr pid. Create_call ttl descr (Inr pid) \<in> set (trace out) \<and> \<not> no_id pid \<longrightarrow>
                   (\<exists>j<length (current ?res). playlist_title (current ?res ! j) = ttl
                        \<and> youtube_playlist_id (current ?res ! j) = pid))"
    using quota(4) filt ids process_playlists_counts [OF rng, of yt info r]
    by (simp add: save_and_exit_def save_state_def)
  then have saved: "\<exists>ps'. files_of out = fs(STATE_FILE := Some (Parsed (Run_state ps')))
             \<and> length ps' = length ps
             \<and> count_status COMPLETED ps' = count_status COMPLETED ps + length (filter inserted (trace out))
             \<and> count_status FAILED ps' = count_status FAILED ps + length (filter rejected (trace out))
             \<and> (\<forall>ttl descr pid. Create_call ttl descr (Inr pid) \<in> set (trace out) \<and> \<not> no_id pid \<longrightarrow>
                   (\<exists>j<length ps'. playlist_title (ps' ! j) = ttl \<and> youtube_playlist_id (ps' ! j) = pid))"
    by blast
  have "exit_status out = Some 0" using quota(4) by (simp add: save_and_exit_def)
  with last saved show ?thesis by blast
qed
qed

theorem quota_error_saves_and_exits_witness:
  "demo_files STATE_FILE = Some (Parsed (Run_state demo_state))
   \<and> run_execution_phase budget_client demo_files 4 = Some demo_outcome
   \<and> list_ex quota_hit (trace demo_outcome)
   \<and> exit_status demo_outcome = Some 0
   \<and> files_of demo_outcome = demo_files(STATE_FILE := Some (Parsed (Run_state demo_saved)))
   \<and> count_status COMPLETED demo_saved = 1 \<and> count_status FAILED demo_saved = 1
   \<and> length (filter inserted (trace demo_outcome)) = 1
   \<and> length (filter rejected (trace demo_outcome)) = 1"
proof -
  have a: "demo_files STATE_FILE = Some (Parsed (Run_state demo_state))"
    by (simp add: demo_files_def)
  have q: "\<exists>ev\<in>set (trace demo_outcome). quota_hit ev"
    by (simp add: demo_outcome_def save_and_exit_def demo_events_def)
  from quota_error_saves_and_exits [OF a demo_run_4 q]
  have "exit_status demo_outcome = Some 0" by blast
  with a demo_run_4 q show ?thesis
    by (simp add: list_ex_iff demo_outcome_def save_and_exit_def save_state_def demo_events_def
          demo_saved_def count_status_def count_tracks_def)
qed

section \<open>Tracks that failed\<close>



end
